theory Spec2Isabelle
  imports Complex_Main "HOL-Library.AList" "HOL-Library.Multiset"
begin

section \<open>JavaScript values\<close>

text \<open>
  A JavaScript string is a sequence of UTF-16 code units; a code unit is carried as a
  natural number. \<open>ascii\<close> turns an ASCII literal into its code units, so that the
  column names of the source can be read; Thai text is written out unit by unit.
\<close>

type_synonym jsstring = "nat list"

definition ascii :: "string \<Rightarrow> jsstring" where
  "ascii s = map of_char s"

text \<open>
  The primitive values a cell of a row can hold. A number is carried by its canonical
  rendering (the result of \<open>Number::toString\<close>, for instance \<open>0\<close>, \<open>23.5\<close>,
  \<open>NaN\<close>): the rendering determines the number up to the sign of zero, which neither
  \<open>===\<close> nor truthiness observes, and it is all that the code below reads of a number.
\<close>

datatype jsval = JUndefined | JNull | JBool bool | JNum jsstring | JStr jsstring

definition truthy :: "jsval \<Rightarrow> bool" where
  "truthy v = (case v of
      JUndefined \<Rightarrow> False
    | JNull \<Rightarrow> False
    | JBool b \<Rightarrow> b
    | JNum n \<Rightarrow> n \<noteq> ascii ''0'' \<and> n \<noteq> ascii ''NaN''
    | JStr s \<Rightarrow> s \<noteq> [])"

text \<open>\<open>a === b\<close>: equal type and equal value, except that \<open>NaN\<close> equals nothing.\<close>

definition strict_eq :: "jsval \<Rightarrow> jsval \<Rightarrow> bool" where
  "strict_eq a b = (a = b \<and> a \<noteq> JNum (ascii ''NaN''))"

text \<open>\<open>String(value)\<close> on a primitive.\<close>

definition ToString :: "jsval \<Rightarrow> jsstring" where
  "ToString v = (case v of
      JUndefined \<Rightarrow> ascii ''undefined''
    | JNull \<Rightarrow> ascii ''null''
    | JBool b \<Rightarrow> (if b then ascii ''true'' else ascii ''false'')
    | JNum n \<Rightarrow> n
    | JStr s \<Rightarrow> s)"

subsection \<open>String methods\<close>

text \<open>
  \<open>String.prototype.trim\<close> removes the white space and line terminator code units of
  ECMAScript from both ends.
\<close>

definition isWhiteSpace :: "nat \<Rightarrow> bool" where
  "isWhiteSpace c = (c \<in> set [0x0009, 0x000A, 0x000B, 0x000C, 0x000D, 0x0020, 0x00A0,
     0x1680, 0x2000, 0x2001, 0x2002, 0x2003, 0x2004, 0x2005, 0x2006, 0x2007, 0x2008,
     0x2009, 0x200A, 0x2028, 0x2029, 0x202F, 0x205F, 0x3000, 0xFEFF])"

definition trim :: "jsstring \<Rightarrow> jsstring" where
  "trim s = rev (dropWhile isWhiteSpace (rev (dropWhile isWhiteSpace s)))"

definition startsWith :: "jsstring \<Rightarrow> jsstring \<Rightarrow> bool" where
  "startsWith s p = (take (length p) s = p)"

text \<open>
  \<open>String.prototype.toLowerCase\<close> on the letters A to Z. The Unicode mapping of the
  other code units is not written out: the only use below is a comparison with words
  made of the letters a, e, f, l, n, o, s and of \<open>0\<close>, \<open>-\<close>, \<open>/\<close>, and no character outside
  ASCII has one of these as its lower case.
\<close>

definition toLowerCase :: "jsstring \<Rightarrow> jsstring" where
  "toLowerCase s = map (\<lambda>c. if 0x41 \<le> c \<and> c \<le> 0x5A then c + 0x20 else c) s"

definition array_includes :: "'a list \<Rightarrow> 'a \<Rightarrow> bool" where
  "array_includes xs x = (x \<in> set xs)"

section \<open>Objects\<close>

text \<open>
  A row is a plain object: its own properties in the order \<open>Object.keys\<close> lists them,
  every key once. \<open>obj_set\<close> is the assignment \<open>obj[k] = v\<close>: an existing property keeps
  its place, a new one goes last. \<open>field\<close> is the read \<open>obj.k\<close> of a data field
  (\<open>undefined\<close> when the object has no such property). Keys that are array indices,
  which JavaScript lists before the others, are not set apart: a row read from the store
  is taken in the order it is listed in, and the statements on a built row hold for every
  order of its properties.
\<close>

type_synonym jsobj = "(jsstring \<times> jsval) list"

definition obj_set :: "jsobj \<Rightarrow> jsstring \<Rightarrow> jsval \<Rightarrow> jsobj" where
  "obj_set obj k v = AList.update k v obj"

definition field :: "jsobj \<Rightarrow> jsstring \<Rightarrow> jsval" where
  "field obj k = (case map_of obj k of Some v \<Rightarrow> v | None \<Rightarrow> JUndefined)"

section \<open>Column names: \<open>THAI_TO_ENGLISH_MAP\<close>\<close>

definition THAI_TO_ENGLISH_MAP :: "(jsstring \<times> jsstring) list" where
  "THAI_TO_ENGLISH_MAP = [
    (ascii ''HN'',
      ascii ''hn''),
    ([0x0E23, 0x0E2B, 0x0E31, 0x0E2A],
      ascii ''employee_id''),
    ([0x0E0A, 0x0E37, 0x0E48, 0x0E2D] @ ascii '' - '' @ [0x0E19, 0x0E32, 0x0E21, 0x0E2A, 0x0E01, 0x0E38, 0x0E25],
      ascii ''full_name''),
    ([0x0E0A, 0x0E37, 0x0E48, 0x0E2D] @ ascii ''-'' @ [0x0E19, 0x0E32, 0x0E21, 0x0E2A, 0x0E01, 0x0E38, 0x0E25],
      ascii ''full_name''),
    ([0x0E0A, 0x0E37, 0x0E48, 0x0E2D] @ ascii '' - '' @ [0x0E19, 0x0E32, 0x0E21, 0x0E2A, 0x0E01, 0x0E38, 0x0E25] @ ascii '' ('' @ [0x0E44, 0x0E17, 0x0E22] @ ascii '')'',
      ascii ''full_name''),
    ([0x0E0A, 0x0E37, 0x0E48, 0x0E2D] @ ascii '' - '' @ [0x0E19, 0x0E32, 0x0E21, 0x0E2A, 0x0E01, 0x0E38, 0x0E25] @ ascii '' (ENG)'',
      ascii ''full_name_eng''),
    ([0x0E41, 0x0E1C, 0x0E19, 0x0E01],
      ascii ''department''),
    ([0x0E15, 0x0E33, 0x0E41, 0x0E2B, 0x0E19, 0x0E48, 0x0E07],
      ascii ''position''),
    ([0x0E2A, 0x0E32, 0x0E02, 0x0E32],
      ascii ''branch''),
    ([0x0E42, 0x0E23, 0x0E07, 0x0E07, 0x0E32, 0x0E19],
      ascii ''factory''),
    (ascii ''Function'',
      ascii ''function''),
    (ascii ''Sub-Function'',
      ascii ''sub_function''),
    (ascii ''Category'',
      ascii ''category''),
    (ascii ''Sub-Category'',
      ascii ''sub_category''),
    (ascii ''Group'',
      ascii ''group''),
    (ascii ''Age'',
      ascii ''age''),
    (ascii ''Year of Service'',
      ascii ''year_of_service''),
    (ascii ''M or F'',
      ascii ''gender''),
    (ascii ''Year'',
      ascii ''year''),
    ([0x0E2A, 0x0E31, 0x0E07, 0x0E01, 0x0E31, 0x0E14] @ ascii '' SVP'',
      ascii ''svp_group''),
    (ascii ''VP'',
      ascii ''vp''),
    ([0x0E27, 0x0E31, 0x0E19, 0x0E17, 0x0E35, 0x0E48, 0x0E25, 0x0E32, 0x0E2D, 0x0E2D, 0x0E01],
      ascii ''resignation_date''),
    (ascii ''BP-H'',
      ascii ''bp_high''),
    (ascii ''BP-L'',
      ascii ''bp_low''),
    ([0x0E19, 0x0E49, 0x0E33, 0x0E2B, 0x0E19, 0x0E31, 0x0E01],
      ascii ''weight''),
    ([0x0E2A, 0x0E48, 0x0E27, 0x0E19, 0x0E2A, 0x0E39, 0x0E07],
      ascii ''height''),
    (ascii ''BMI'',
      ascii ''bmi''),
    (ascii ''SMOKE'',
      ascii ''smoke''),
    (ascii ''DRINK'',
      ascii ''drink''),
    ([0x0E2A, 0x0E23, 0x0E38, 0x0E1B, 0x0E1C, 0x0E25, 0x0E04, 0x0E27, 0x0E32, 0x0E21, 0x0E14, 0x0E31, 0x0E19],
      ascii ''bp_result''),
    ([0x0E1C, 0x0E25, 0x0E01, 0x0E32, 0x0E23, 0x0E15, 0x0E23, 0x0E27, 0x0E08],
      ascii ''overall_result''),
    ([0x0E15, 0x0E23, 0x0E27, 0x0E08, 0x0E42, 0x0E23, 0x0E04, 0x0E2B, 0x0E2D, 0x0E1A, 0x0E2B, 0x0E37, 0x0E14, 0x0E20, 0x0E39, 0x0E21, 0x0E34, 0x0E41, 0x0E1E, 0x0E49],
      ascii ''asthma_allergy''),
    (ascii ''Complete Blood Count'',
      ascii ''cbc_result''),
    (ascii ''Urine Analysis'',
      ascii ''ua_result''),
    (ascii ''FBS 70-110 mg%'',
      ascii ''fbs''),
    (ascii ''Cholesterol 0-200 mg%'',
      ascii ''cholesterol''),
    (ascii ''Triglyceride 30-150  mg%'',
      ascii ''triglyceride''),
    (ascii ''Triglyceride 30-150 mg%'',
      ascii ''triglyceride''),
    (ascii ''HDL  >35 mg/dl'',
      ascii ''hdl''),
    (ascii ''HDL >35 mg/dl'',
      ascii ''hdl''),
    (ascii ''LDL <=130 mg/dl'',
      ascii ''ldl''),
    (ascii ''Uric Acid 2.4-7.0 mg%'',
      ascii ''uric_acid''),
    (ascii ''B.U.N 5-25 mg%'',
      ascii ''bun''),
    (ascii ''B.U.N'',
      ascii ''bun''),
    (ascii ''Creatinine 0.7-1.5 mg%'',
      ascii ''creatinine''),
    (ascii ''Creatinine'',
      ascii ''creatinine''),
    (ascii ''SGOT 5-40 U/L'',
      ascii ''sgot''),
    (ascii ''SGOT'',
      ascii ''sgot''),
    (ascii ''SGPT 5-40 U/L'',
      ascii ''sgpt''),
    (ascii ''SGPT'',
      ascii ''sgpt''),
    (ascii ''HBs Ag (Negative)'',
      ascii ''hbs_ag''),
    (ascii ''HBs Ag'',
      ascii ''hbs_ag''),
    (ascii ''HBs Ab (Negative)'',
      ascii ''hbs_ab''),
    (ascii ''HBs Ab'',
      ascii ''hbs_ab''),
    (ascii ''HAV lgM (Negative)'',
      ascii ''hav_igm''),
    (ascii ''Anti HAV (Negative)'',
      ascii ''anti_hav''),
    (ascii ''PSA 0 - 4 ng/ml'',
      ascii ''psa''),
    (ascii ''Lead in Blood < 60 ug/dl'',
      ascii ''lead_in_blood''),
    (ascii ''2,5 Hexanedion in Urine < 0.5 mg/L'',
      ascii ''hexanedione''),
    (ascii ''Methyl Ethyl Ketone in Urine < 2 mg/L'',
      ascii ''mek''),
    (ascii ''Methanal in Urine < 15 mg/L'',
      ascii ''methanal''),
    (ascii ''Stool Examintion                          (Parasit Not Found)'',
      ascii ''stool_exam''),
    (ascii ''Stool Culture (Not-Growth)'',
      ascii ''stool_culture''),
    (ascii ''Amphetamine (Negative)'',
      ascii ''amphetamine''),
    ([0x0E40, 0x0E2D, 0x0E47, 0x0E01, 0x0E0B, 0x0E40, 0x0E23, 0x0E22, 0x0E4C, 0x0E17, 0x0E23, 0x0E27, 0x0E07, 0x0E2D, 0x0E01],
      ascii ''chest_xray''),
    ([0x0E15, 0x0E23, 0x0E27, 0x0E08, 0x0E42, 0x0E04, 0x0E23, 0x0E07, 0x0E2A, 0x0E23, 0x0E49, 0x0E32, 0x0E07, 0x0E01, 0x0E23, 0x0E30, 0x0E14, 0x0E39, 0x0E01, 0x0E2A, 0x0E31],
      ascii ''bone_structure''),
    ([0x0E2A, 0x0E21, 0x0E23, 0x0E23, 0x0E16, 0x0E20, 0x0E32, 0x0E1E, 0x0E01, 0x0E32, 0x0E23, 0x0E44, 0x0E14, 0x0E49, 0x0E22, 0x0E34, 0x0E19],
      ascii ''hearing_test''),
    ([0x0E2A, 0x0E21, 0x0E23, 0x0E23, 0x0E16, 0x0E20, 0x0E32, 0x0E1E, 0x0E04, 0x0E27, 0x0E32, 0x0E21, 0x0E08, 0x0E38, 0x0E1B, 0x0E2D, 0x0E14],
      ascii ''spirometry''),
    ([0x0E2A, 0x0E21, 0x0E23, 0x0E23, 0x0E16, 0x0E20, 0x0E32, 0x0E1E, 0x0E2A, 0x0E32, 0x0E22, 0x0E15, 0x0E32, 0x0E2D, 0x0E32, 0x0E0A, 0x0E35, 0x0E27, 0x0E2D, 0x0E19, 0x0E32],
      ascii ''vision_occupational''),
    ([0x0E2A, 0x0E21, 0x0E23, 0x0E23, 0x0E16, 0x0E20, 0x0E32, 0x0E1E, 0x0E2A, 0x0E32, 0x0E22, 0x0E15, 0x0E32, 0x0E2D, 0x0E32, 0x0E0A, 0x0E35, 0x0E27, 0x0E2D, 0x0E19, 0x0E32, 0x0E21, 0x0E31, 0x0E22],
      ascii ''vision_occupational''),
    ([0x0E04, 0x0E25, 0x0E37, 0x0E48, 0x0E19, 0x0E44, 0x0E1F, 0x0E1F, 0x0E49, 0x0E32, 0x0E2B, 0x0E31, 0x0E27, 0x0E43, 0x0E08],
      ascii ''ekg''),
    ([0x0E04, 0x0E27, 0x0E32, 0x0E21, 0x0E1C, 0x0E34, 0x0E14, 0x0E1B, 0x0E01, 0x0E15, 0x0E34, 0x0E02, 0x0E2D, 0x0E07, 0x0E2B, 0x0E31, 0x0E27, 0x0E43, 0x0E08, 0x0E41, 0x0E25, 0x0E30, 0x0E2B, 0x0E25, 0x0E2D, 0x0E14, 0x0E40, 0x0E25, 0x0E37, 0x0E2D, 0x0E14] @ ascii '' - '' @ [0x0E04, 0x0E27, 0x0E32, 0x0E21, 0x0E14, 0x0E31, 0x0E19],
      ascii ''cardiovascular_issues''),
    ([0x0E01, 0x0E25, 0x0E38, 0x0E48, 0x0E21, 0x0E1B, 0x0E23, 0x0E30, 0x0E2A, 0x0E32, 0x0E17, 0x0E41, 0x0E25, 0x0E30, 0x0E2A, 0x0E21, 0x0E2D, 0x0E07],
      ascii ''neurological_issues''),
    ([0x0E17, 0x0E32, 0x0E19, 0x0E22, 0x0E32, 0x0E19, 0x0E2D, 0x0E19, 0x0E2B, 0x0E25, 0x0E31, 0x0E1A],
      ascii ''sleeping_pills''),
    ([0x0E42, 0x0E23, 0x0E04, 0x0E15, 0x0E34, 0x0E14, 0x0E15, 0x0E48, 0x0E2D],
      ascii ''infectious_disease''),
    ([0x0E01, 0x0E25, 0x0E38, 0x0E48, 0x0E21, 0x0E42, 0x0E23, 0x0E04, 0x0E40, 0x0E1A, 0x0E32, 0x0E2B, 0x0E27, 0x0E32, 0x0E19, 0x0E17, 0x0E35, 0x0E48, 0x0E15, 0x0E49, 0x0E2D, 0x0E07, 0x0E09, 0x0E35, 0x0E14, 0x0E2D, 0x0E34, 0x0E19, 0x0E0B, 0x0E39, 0x0E25, 0x0E35, 0x0E19],
      ascii ''insulin_diabetes''),
    ([0x0E41, 0x0E1A, 0x0E1A, 0x0E17, 0x0E14, 0x0E2A, 0x0E2D, 0x0E1A, 0x0E27, 0x0E31, 0x0E14, 0x0E23, 0x0E30, 0x0E14, 0x0E31, 0x0E1A, 0x0E04, 0x0E27, 0x0E32, 0x0E21, 0x0E07, 0x0E48, 0x0E27, 0x0E07, 0x0E19, 0x0E2D, 0x0E19, 0x0E01, 0x0E25, 0x0E32, 0x0E07, 0x0E27, 0x0E31, 0x0E19] @ ascii '' ('' @ [0x0E04, 0x0E30, 0x0E41, 0x0E19, 0x0E19] @ ascii '')'',
      ascii ''sleepiness_score''),
    ([0x0E41, 0x0E1A, 0x0E1A, 0x0E17, 0x0E14, 0x0E2A, 0x0E2D, 0x0E1A, 0x0E27, 0x0E31, 0x0E14, 0x0E23, 0x0E30, 0x0E14, 0x0E31, 0x0E1A, 0x0E04, 0x0E27, 0x0E32, 0x0E21, 0x0E07, 0x0E48, 0x0E27, 0x0E07, 0x0E19, 0x0E2D, 0x0E19, 0x0E01, 0x0E25, 0x0E32, 0x0E07, 0x0E27, 0x0E31, 0x0E19],
      ascii ''sleepiness_result''),
    ([0x0E41, 0x0E1A, 0x0E1A, 0x0E17, 0x0E14, 0x0E2A, 0x0E2D, 0x0E1A, 0x0E01, 0x0E32, 0x0E23, 0x0E19, 0x0E2D, 0x0E19, 0x0E2B, 0x0E25, 0x0E31, 0x0E1A] @ ascii '' ('' @ [0x0E04, 0x0E30, 0x0E41, 0x0E19, 0x0E19] @ ascii '')'',
      ascii ''sleep_test_score''),
    ([0x0E04, 0x0E27, 0x0E32, 0x0E21, 0x0E1C, 0x0E34, 0x0E14, 0x0E1B, 0x0E01, 0x0E15, 0x0E34, 0x0E02, 0x0E2D, 0x0E07, 0x0E01, 0x0E32, 0x0E23, 0x0E19, 0x0E2D, 0x0E19, 0x0E2B, 0x0E25, 0x0E31, 0x0E1A],
      ascii ''sleep_disorder_result''),
    ([0x0E41, 0x0E1A, 0x0E1A, 0x0E17, 0x0E14, 0x0E2A, 0x0E2D, 0x0E1A, 0x0E2A, 0x0E20, 0x0E32, 0x0E1E, 0x0E14, 0x0E49, 0x0E32, 0x0E19, 0x0E08, 0x0E34, 0x0E15] @ ascii '' ('' @ [0x0E04, 0x0E30, 0x0E41, 0x0E19, 0x0E19] @ ascii '')'',
      ascii ''mental_health_score''),
    ([0x0E04, 0x0E27, 0x0E32, 0x0E21, 0x0E1C, 0x0E34, 0x0E14, 0x0E1B, 0x0E01, 0x0E15, 0x0E34, 0x0E17, 0x0E32, 0x0E07, 0x0E14, 0x0E49, 0x0E32, 0x0E19, 0x0E08, 0x0E34, 0x0E15, 0x0E43, 0x0E08],
      ascii ''mental_health_result'')
  ]"

text \<open>
  \<open>THAI_TO_ENGLISH_MAP\<close> is an object literal, so the read \<open>THAI_TO_ENGLISH_MAP[key]\<close>
  also finds what every object inherits from \<open>Object.prototype\<close>: a function, or for
  \<open>__proto__\<close> the prototype object itself. Such a value is truthy, and used as a
  property key it is converted to a string, which is what the list gives for each
  inherited name (the text of a native function, as V8 prints it; other engines differ
  in its white space only).
\<close>

definition native_function :: "string \<Rightarrow> jsstring" where
  "native_function name = ascii (''function '' @ name @ ''() { [native code] }'')"

definition Object_prototype :: "(jsstring \<times> jsstring) list" where
  "Object_prototype = [
    (ascii ''constructor'', native_function ''Object''),
    (ascii ''__defineGetter__'', native_function ''__defineGetter__''),
    (ascii ''__defineSetter__'', native_function ''__defineSetter__''),
    (ascii ''hasOwnProperty'', native_function ''hasOwnProperty''),
    (ascii ''__lookupGetter__'', native_function ''__lookupGetter__''),
    (ascii ''__lookupSetter__'', native_function ''__lookupSetter__''),
    (ascii ''isPrototypeOf'', native_function ''isPrototypeOf''),
    (ascii ''propertyIsEnumerable'', native_function ''propertyIsEnumerable''),
    (ascii ''toString'', native_function ''toString''),
    (ascii ''valueOf'', native_function ''valueOf''),
    (ascii ''__proto__'', ascii ''[object Object]''),
    (ascii ''toLocaleString'', native_function ''toLocaleString'')
  ]"

text \<open>\<open>THAI_TO_ENGLISH_MAP[key] || key\<close>, as the property key it is then used as.\<close>

definition englishKey :: "jsstring \<Rightarrow> jsstring" where
  "englishKey key =
     (case map_of THAI_TO_ENGLISH_MAP key of
        Some e \<Rightarrow> (if e \<noteq> [] then e else key)
      | None \<Rightarrow> (case map_of Object_prototype key of Some p \<Rightarrow> p | None \<Rightarrow> key))"

section \<open>Normalization\<close>

text \<open>
  The literals of \<open>toBooleanFlag\<close>: the glyph that marks a checked cell, which is the
  one-unit string U+00FC; the Thai negation prefix, U+0E44 U+0E21 U+0E48; and the array
  \<open>falsy\<close>.
\<close>

definition checkmark :: jsstring where
  "checkmark = [0x00FC]"

definition thai_mai :: jsstring where
  "thai_mai = [0x0E44, 0x0E21, 0x0E48]"

definition falsy :: "jsstring list" where
  "falsy = [ascii ''false'', ascii ''no'', ascii ''0'', ascii ''-'', ascii ''n/a'', ascii ''none'']"

definition toBooleanFlag :: "jsval \<Rightarrow> bool" where
  "toBooleanFlag v =
     (if v = JNull \<or> v = JUndefined \<or> v = JStr [] then False
      else case v of
        JBool b \<Rightarrow> b
      | _ \<Rightarrow>
          if v = JStr checkmark then True
          else let s = trim (ToString v) in
            if startsWith s thai_mai then False
            else 0 < length s \<and> \<not> array_includes falsy (toLowerCase s))"

text \<open>The body of the \<open>forEach\<close> over the keys of one row, and the row's result.\<close>

definition normalizeValue :: "jsstring \<Rightarrow> jsval \<Rightarrow> jsval" where
  "normalizeValue ek v =
     (if ek = ascii ''drink'' \<or> ek = ascii ''smoke'' then JBool (toBooleanFlag v)
      else if v = JStr checkmark then JBool True
      else v)"

definition normalizeKey :: "jsobj \<Rightarrow> jsstring \<times> jsval \<Rightarrow> jsobj" where
  "normalizeKey normalized kv =
     (let ek = englishKey (fst kv) in obj_set normalized ek (normalizeValue ek (snd kv)))"

definition normalizeItem :: "jsobj \<Rightarrow> jsobj" where
  "normalizeItem item = foldl normalizeKey [] item"

text \<open>\<open>None\<close> is an argument that is \<open>null\<close>, \<open>undefined\<close> or not an array.\<close>

definition normalizeData :: "jsobj list option \<Rightarrow> jsobj list" where
  "normalizeData data = (case data of None \<Rightarrow> [] | Some rows \<Rightarrow> map normalizeItem rows)"

section \<open>Fetching rows\<close>

text \<open>
  The store is outside the program. A query answers with \<open>{data, error}\<close>; the client
  is given by the answers of the two queries the code issues:
  \<open>from(t).select('*').range(from, to)\<close> and \<open>from(t).select('*').limit(n)\<close>.
\<close>

record 'e response =
  data :: "jsobj list option"
  error :: "'e option"

record 'e supabase =
  select_range :: "jsstring \<Rightarrow> nat \<Rightarrow> nat \<Rightarrow> 'e response"
  select_limit :: "jsstring \<Rightarrow> nat \<Rightarrow> 'e response"

definition PAGE_SIZE :: nat where
  "PAGE_SIZE = 1000"

text \<open>
  The \<open>while (true)\<close> loop of \<open>fetchAll\<close>, with \<open>results\<close> and \<open>page\<close> as its state.
  \<open>Inl e\<close> is \<open>throw e\<close>; a loop that never leaves is \<open>None\<close>.
\<close>

partial_function (option) fetchAll_loop ::
  "'e supabase \<Rightarrow> jsstring \<Rightarrow> jsobj list \<Rightarrow> nat \<Rightarrow> ('e + jsobj list) option" where
  "fetchAll_loop sb tableName results page =
     (let lo = page * PAGE_SIZE;
          hi = lo + PAGE_SIZE - 1;
          r = select_range sb tableName lo hi
      in case error r of
           Some e \<Rightarrow> Some (Inl e)
         | None \<Rightarrow>
             (case data r of
                None \<Rightarrow> Some (Inr results)
              | Some d \<Rightarrow>
                  if length d = 0 then Some (Inr results)
                  else if length d < PAGE_SIZE then Some (Inr (results @ d))
                  else fetchAll_loop sb tableName (results @ d) (page + 1)))"

definition fetchAll :: "'e supabase \<Rightarrow> jsstring \<Rightarrow> ('e + jsobj list) option" where
  "fetchAll sb tableName = fetchAll_loop sb tableName [] 0"

text \<open>
  \<open>fetchData\<close> of the Drinking page (the Smoking page has the same): one query per year, capped at
  5000 rows, then normalization. The result is what the page then holds: \<open>Inr\<close> of the
  two collections \<open>data2024\<close> and \<open>data2025\<close> (both still empty when the client is not
  configured and nothing is fetched), or \<open>Inl e\<close> for the error the \<open>catch\<close> reports.
\<close>

definition or_empty :: "jsobj list option \<Rightarrow> jsobj list" where
  "or_empty d = (case d of Some rows \<Rightarrow> rows | None \<Rightarrow> [])"

definition fetchData :: "bool \<Rightarrow> 'e supabase \<Rightarrow> 'e + (jsobj list \<times> jsobj list)" where
  "fetchData isSupabaseConfigured sb =
     (if \<not> isSupabaseConfigured then Inr ([], []) else
      let r2024 = select_limit sb (ascii ''health_2024'') 5000;
          r2025 = select_limit sb (ascii ''health_2025'') 5000
      in case error r2024 of
           Some e \<Rightarrow> Inl e
         | None \<Rightarrow>
             (case error r2025 of
                Some e \<Rightarrow> Inl e
              | None \<Rightarrow>
                  Inr (normalizeData (Some (or_empty (data r2024))),
                       normalizeData (Some (or_empty (data r2025))))))"

text \<open>
  A store that holds tables of rows and answers as the database does: the rows of the
  requested range, in table order; an error for a table it does not have.
\<close>

definition table_store :: "(jsstring \<Rightarrow> jsobj list option) \<Rightarrow> 'e \<Rightarrow> 'e supabase" where
  "table_store db missing =
     \<lparr> select_range = (\<lambda>t lo hi. case db t of
          None \<Rightarrow> \<lparr> data = None, error = Some missing \<rparr>
        | Some rows \<Rightarrow> \<lparr> data = Some (take (hi + 1 - lo) (drop lo rows)), error = None \<rparr>),
       select_limit = (\<lambda>t n. case db t of
          None \<Rightarrow> \<lparr> data = None, error = Some missing \<rparr>
        | Some rows \<Rightarrow> \<lparr> data = Some (take n rows), error = None \<rparr>) \<rparr>"

section \<open>Cohorts and rates (Drinking and Smoking pages)\<close>

text \<open>
  A JavaScript number is an IEEE 754 double, and every operation on numbers returns the
  double nearest to the exact result, with ties going to the even significand.
  \<open>binary64\<close> is that rounding, on the exact value as a real number. \<open>exponent x\<close> is
  the binary exponent of a positive \<open>x\<close> (the \<open>e\<close> with \<open>2^e \<le> x < 2^(e+1)\<close>), found with
  \<open>bits\<close>, the number of binary digits of a natural number; the doubles of that binade are
  the multiples of \<open>2^(e-52)\<close>, and below \<open>2^-1022\<close> those of \<open>2^-1074\<close>. Results beyond the
  largest double, which would be \<open>Infinity\<close>, are not set apart: no value below comes
  near them. A count and a size are array lengths, below \<open>2^32\<close>, and are doubles as they
  are.
\<close>

fun bits :: "nat \<Rightarrow> nat" where
  "bits n = (if n = 0 then 0 else Suc (bits (n div 2)))"

declare bits.simps [simp del]

definition exponent :: "real \<Rightarrow> int" where
  "exponent x =
     (if 1 \<le> x then int (bits (nat \<lfloor>x\<rfloor>)) - 1
      else - int (bits (nat (\<lceil>1 / x\<rceil> - 1))))"

definition round_even :: "real \<Rightarrow> int" where
  "round_even r =
     (let f = \<lfloor>r\<rfloor>; d = r - of_int f
      in if d < 1 / 2 then f else if 1 / 2 < d then f + 1 else if even f then f else f + 1)"

definition binary64 :: "real \<Rightarrow> real" where
  "binary64 x =
     (if x = 0 then 0
      else let a = \<bar>x\<bar>;
               e = max (exponent a) (- 1022);
               u = 2 powi (e - 52)
           in sgn x * of_int (round_even (a / u)) * u)"

text \<open>\<open>rate\<close>: the quotient is rounded, and so is its product with 100.\<close>

definition rate :: "nat \<Rightarrow> nat \<Rightarrow> real" where
  "rate n total' =
     (if total' > 0 then binary64 (binary64 (of_nat n / of_nat total') * 100) else 0)"


text \<open>
  The two pages run the same code, one on the field \<open>drink\<close>, the other on \<open>smoke\<close>;
  \<open>flag\<close> is that field's name.
\<close>

definition flagged :: "jsstring \<Rightarrow> jsobj list \<Rightarrow> jsobj list" where
  "flagged flag rows = filter (\<lambda>d. truthy (field d flag)) rows"

definition flagRate :: "jsstring \<Rightarrow> jsobj list \<Rightarrow> real" where
  "flagRate flag rows = rate (length (flagged flag rows)) (length rows)"

definition same_employee :: "jsobj \<Rightarrow> jsobj \<Rightarrow> bool" where
  "same_employee e d = strict_eq (field e (ascii ''employee_id'')) (field d (ascii ''employee_id''))"

definition newOnset :: "jsstring \<Rightarrow> jsobj list \<Rightarrow> jsobj list \<Rightarrow> jsobj list" where
  "newOnset flag data2024 data2025 =
     filter (\<lambda>emp25.
        let emp24 = find (\<lambda>e. same_employee e emp25) data2024
        in truthy (field emp25 flag) \<and>
           (case emp24 of None \<Rightarrow> True | Some e \<Rightarrow> \<not> truthy (field e flag)))
       data2025"

definition quitters :: "jsstring \<Rightarrow> jsobj list \<Rightarrow> jsobj list \<Rightarrow> jsobj list" where
  "quitters flag data2024 data2025 =
     filter (\<lambda>emp24.
        let emp25 = find (\<lambda>e. same_employee e emp24) data2025
        in truthy (field emp24 flag) \<and>
           (case emp25 of None \<Rightarrow> False | Some e \<Rightarrow> \<not> truthy (field e flag)))
       data2024"

definition newDrinkers :: "jsobj list \<Rightarrow> jsobj list \<Rightarrow> jsobj list" where
  "newDrinkers = newOnset (ascii ''drink'')"

definition newSmokers :: "jsobj list \<Rightarrow> jsobj list \<Rightarrow> jsobj list" where
  "newSmokers = newOnset (ascii ''smoke'')"

subsection \<open>Branch breakdown\<close>

text \<open>
  \<open>new Set(xs)\<close> adds the elements in order and keeps the first of equal ones;
  \<open>Array.from\<close> lists them in insertion order.
\<close>

definition Set_add :: "'a list \<Rightarrow> 'a \<Rightarrow> 'a list" where
  "Set_add s x = (if x \<in> set s then s else s @ [x])"

definition new_Set :: "'a list \<Rightarrow> 'a list" where
  "new_Set xs = foldl Set_add [] xs"

text \<open>
  \<open>Array.prototype.sort\<close> with a comparator is a stable sort: \<open>x\<close> goes after \<open>y\<close>
  exactly when \<open>cmp x y > 0\<close>. The comparator of the pages is a difference of two rates;
  the difference of two doubles has the sign of its exact value, which is all the sort
  reads of it, so the difference is written without its rounding.
\<close>

fun insert_by :: "('a \<Rightarrow> 'a \<Rightarrow> real) \<Rightarrow> 'a \<Rightarrow> 'a list \<Rightarrow> 'a list" where
  "insert_by cmp x [] = [x]"
| "insert_by cmp x (y # ys) = (if cmp x y > 0 then y # insert_by cmp x ys else x # y # ys)"

definition sort_by :: "('a \<Rightarrow> 'a \<Rightarrow> real) \<Rightarrow> 'a list \<Rightarrow> 'a list" where
  "sort_by cmp xs = foldr (insert_by cmp) xs []"

text \<open>
  A row of the breakdown. The two counts are \<open>drinkers2024\<close>, \<open>drinkers2025\<close> on one page
  and \<open>smokers2024\<close>, \<open>smokers2025\<close> on the other.
\<close>

record branch_row =
  name :: jsval
  rate2024 :: real
  rate2025 :: real
  flagged2024 :: nat
  flagged2025 :: nat
  total2024 :: nat
  total2025 :: nat

definition branch_names :: "jsobj list \<Rightarrow> jsobj list \<Rightarrow> jsval list" where
  "branch_names data2024 data2025 =
     new_Set (filter truthy (map (\<lambda>d. field d (ascii ''branch'')) (data2024 @ data2025)))"

definition in_branch :: "jsval \<Rightarrow> jsobj \<Rightarrow> bool" where
  "in_branch branch d = strict_eq (field d (ascii ''branch'')) branch"

definition branch_stats :: "jsstring \<Rightarrow> jsobj list \<Rightarrow> jsobj list \<Rightarrow> jsval \<Rightarrow> branch_row" where
  "branch_stats flag data2024 data2025 branch =
     (let total24 = length (filter (in_branch branch) data2024);
          total25 = length (filter (in_branch branch) data2025);
          flag24 = length (filter (\<lambda>d. in_branch branch d \<and> truthy (field d flag)) data2024);
          flag25 = length (filter (\<lambda>d. in_branch branch d \<and> truthy (field d flag)) data2025)
      in \<lparr> name = branch,
           rate2024 = rate flag24 total24,
           rate2025 = rate flag25 total25,
           flagged2024 = flag24,
           flagged2025 = flag25,
           total2024 = total24,
           total2025 = total25 \<rparr>)"

definition branches :: "jsstring \<Rightarrow> jsobj list \<Rightarrow> jsobj list \<Rightarrow> branch_row list" where
  "branches flag data2024 data2025 =
     sort_by (\<lambda>a b. rate2025 b - rate2025 a)
       (map (branch_stats flag data2024 data2025) (branch_names data2024 data2025))"

section \<open>The cohorts as the specification words them\<close>

text \<open>
  \<open>first_match rows r e\<close>: \<open>e\<close> is the first record of \<open>rows\<close> with the employee id of \<open>r\<close>.
  The onset cohort takes a record of the later year whose flag is set and whose id has no
  record in the earlier year, or a first record there with the flag not set; the
  discontinued cohort takes a record of the earlier year whose flag is set and whose id
  has a first record in the later year with the flag not set.
\<close>

definition first_match :: "jsobj list \<Rightarrow> jsobj \<Rightarrow> jsobj \<Rightarrow> bool" where
  "first_match rows r e =
     (\<exists>i<length rows. rows ! i = e \<and> same_employee e r \<and> (\<forall>j<i. \<not> same_employee (rows ! j) r))"

definition onset_spec :: "jsstring \<Rightarrow> jsobj list \<Rightarrow> jsobj \<Rightarrow> bool" where
  "onset_spec flag before r =
     (truthy (field r flag) \<and>
      ((\<forall>e\<in>set before. \<not> same_employee e r) \<or>
       (\<exists>e\<in>set before. first_match before r e \<and> \<not> truthy (field e flag))))"

definition discontinued_spec :: "jsstring \<Rightarrow> jsobj list \<Rightarrow> jsobj \<Rightarrow> bool" where
  "discontinued_spec flag after r =
     (truthy (field r flag) \<and>
      (\<exists>e\<in>set after. first_match after r e \<and> \<not> truthy (field e flag)))"

section \<open>Notions used in the statements about normalization\<close>

text \<open>
  What one step of the \<open>forEach\<close> writes for the entry \<open>(key, value)\<close> of a row: the
  property name and the value stored under it.
\<close>

definition normalizedEntry :: "jsstring \<times> jsval \<Rightarrow> jsstring \<times> jsval" where
  "normalizedEntry kv = (englishKey (fst kv), normalizeValue (englishKey (fst kv)) (snd kv))"

text \<open>
  Three shapes of names that tell the columns of the table apart: a canonical field name
  is made of lower-case letters and underscores, an inherited name is a property of
  \<open>Object.prototype\<close>, and the rendering of an inherited value begins with \<open>f\<close> or \<open>[\<close>.
\<close>

definition canonical :: "jsstring \<Rightarrow> bool" where
  "canonical s = (s \<noteq> [] \<and> list_all (\<lambda>c. (0x61 \<le> c \<and> c \<le> 0x7A) \<or> c = 0x5F) s)"

definition inherited :: "jsstring \<Rightarrow> bool" where
  "inherited k = (k \<in> set (map fst Object_prototype))"

definition rendered :: "jsstring \<Rightarrow> bool" where
  "rendered s = (case s of [] \<Rightarrow> False | c # _ \<Rightarrow> c = 0x66 \<or> c = 0x5B)"

section \<open>Notions used in the statements about fetching\<close>

text \<open>
  The answer to the request for page \<open>k\<close>; a full page (no error, at least \<open>PAGE_SIZE\<close>
  rows), after which the loop goes on; a last page (no error, fewer rows, possibly none
  or no array at all), after which it returns.
\<close>

definition page_query :: "'e supabase \<Rightarrow> jsstring \<Rightarrow> nat \<Rightarrow> 'e response" where
  "page_query sb tableName k =
     select_range sb tableName (k * PAGE_SIZE) (k * PAGE_SIZE + PAGE_SIZE - 1)"

definition full_page :: "'e response \<Rightarrow> bool" where
  "full_page r = (error r = None \<and> PAGE_SIZE \<le> length (or_empty (data r)))"

definition last_page :: "'e response \<Rightarrow> bool" where
  "last_page r = (error r = None \<and> length (or_empty (data r)) < PAGE_SIZE)"

section \<open>Transition cohorts\<close>

lemma find_first_match: "(find (\<lambda>e. same_employee e r) rows = Some e) = first_match rows r e"
  unfolding first_match_def find_Some_iff by auto

lemma first_match_member: "first_match rows r e \<Longrightarrow> e \<in> set rows"
  by (auto simp: first_match_def)

lemma find_no_match: "(find (\<lambda>e. same_employee e r) rows = None) = (\<forall>e\<in>set rows. \<not> same_employee e r)"
  unfolding find_None_iff by auto

lemma onset_spec_find:
  "onset_spec flag before r =
     (truthy (field r flag) \<and>
      (case find (\<lambda>e. same_employee e r) before of None \<Rightarrow> True | Some e \<Rightarrow> \<not> truthy (field e flag)))"
proof (cases "find (\<lambda>e. same_employee e r) before")
  case None
  have "\<forall>e\<in>set before. \<not> same_employee e r"
    using None by (simp only: find_no_match)
  then show ?thesis by (simp add: onset_spec_def None)
next
  case (Some e)
  then have fm: "\<And>e'. first_match before r e' = (e' = e)"
    by (auto simp: find_first_match [symmetric])
  from Some have "\<not> (\<forall>e\<in>set before. \<not> same_employee e r)"
    by (simp add: find_no_match [symmetric])
  moreover have "e \<in> set before" using fm [of e] by (simp add: first_match_member)
  ultimately show ?thesis using Some fm by (auto simp: onset_spec_def)
qed

lemma discontinued_spec_find:
  "discontinued_spec flag after r =
     (truthy (field r flag) \<and>
      (case find (\<lambda>e. same_employee e r) after of None \<Rightarrow> False | Some e \<Rightarrow> \<not> truthy (field e flag)))"
proof (cases "find (\<lambda>e. same_employee e r) after")
  case None
  then have "\<And>e. \<not> first_match after r e"
    by (simp add: find_first_match [symmetric])
  with None show ?thesis by (simp add: discontinued_spec_def)
next
  case (Some e)
  then have fm: "\<And>e'. first_match after r e' = (e' = e)"
    by (auto simp: find_first_match [symmetric])
  moreover have "e \<in> set after" using fm [of e] by (simp add: first_match_member)
  ultimately show ?thesis using Some by (auto simp: discontinued_spec_def)
qed

text \<open>
  Claim C1. The onset cohort is exactly the sequence of later-year records that satisfy
  the specification's onset condition, the discontinued cohort exactly the sequence of
  earlier-year records that satisfy its discontinuation condition (first match by
  employee id in both), and a record whose id does not occur in the later year is never
  in the discontinued cohort. This holds for every flag field, \<open>drink\<close> and \<open>smoke\<close> among
  them.
\<close>

theorem transition_cohorts:
  "newOnset flag before after = filter (onset_spec flag before) after \<and>
   quitters flag before after = filter (discontinued_spec flag after) before \<and>
   ((\<forall>e\<in>set after. \<not> same_employee e r) \<longrightarrow> r \<notin> set (quitters flag before after)) \<and>
   newDrinkers before after = filter (onset_spec (ascii ''drink'') before) after \<and>
   newSmokers before after = filter (onset_spec (ascii ''smoke'') before) after"
proof -
  have a: "newOnset f before after = filter (onset_spec f before) after" for f
    unfolding newOnset_def Let_def by (rule filter_cong) (simp_all add: onset_spec_find)
  have b: "quitters flag before after = filter (discontinued_spec flag after) before"
    unfolding quitters_def Let_def by (rule filter_cong) (simp_all add: discontinued_spec_find)
  have c: "(\<forall>e\<in>set after. \<not> same_employee e r) \<longrightarrow> r \<notin> set (quitters flag before after)"
    by (simp add: b discontinued_spec_find find_no_match [symmetric])
  from a [of flag] a [of "ascii ''drink''"] a [of "ascii ''smoke''"] b c show ?thesis
    by (simp add: newDrinkers_def newSmokers_def)
qed

theorem transition_cohorts_witness:
  "\<not> same_employee [(ascii ''employee_id'', JStr (ascii ''E200'')), (ascii ''drink'', JBool False)]
      [(ascii ''employee_id'', JStr (ascii ''E100'')), (ascii ''drink'', JBool True)] \<and>
   \<not> same_employee [(ascii ''employee_id'', JStr (ascii ''E300'')), (ascii ''drink'', JBool True)]
      [(ascii ''employee_id'', JStr (ascii ''E100'')), (ascii ''drink'', JBool True)] \<and>
   [(ascii ''employee_id'', JStr (ascii ''E100'')), (ascii ''drink'', JBool True)] \<notin> set (quitters (ascii ''drink'')
      [[(ascii ''employee_id'', JStr (ascii ''E100'')), (ascii ''drink'', JBool True)],
       [(ascii ''employee_id'', JStr (ascii ''E200'')), (ascii ''drink'', JBool True)]]
      [[(ascii ''employee_id'', JStr (ascii ''E200'')), (ascii ''drink'', JBool False)],
       [(ascii ''employee_id'', JStr (ascii ''E300'')), (ascii ''drink'', JBool True)]]) \<and>
   filter (discontinued_spec (ascii ''drink'')
      [[(ascii ''employee_id'', JStr (ascii ''E200'')), (ascii ''drink'', JBool False)],
       [(ascii ''employee_id'', JStr (ascii ''E300'')), (ascii ''drink'', JBool True)]])
      [[(ascii ''employee_id'', JStr (ascii ''E100'')), (ascii ''drink'', JBool True)],
       [(ascii ''employee_id'', JStr (ascii ''E200'')), (ascii ''drink'', JBool True)]]
     = [[(ascii ''employee_id'', JStr (ascii ''E200'')), (ascii ''drink'', JBool True)]] \<and>
   filter (onset_spec (ascii ''drink'')
      [[(ascii ''employee_id'', JStr (ascii ''E100'')), (ascii ''drink'', JBool True)],
       [(ascii ''employee_id'', JStr (ascii ''E200'')), (ascii ''drink'', JBool True)]])
      [[(ascii ''employee_id'', JStr (ascii ''E200'')), (ascii ''drink'', JBool False)],
       [(ascii ''employee_id'', JStr (ascii ''E300'')), (ascii ''drink'', JBool True)]]
     = [[(ascii ''employee_id'', JStr (ascii ''E300'')), (ascii ''drink'', JBool True)]]"
proof -
  let ?e100 = "[(ascii ''employee_id'', JStr (ascii ''E100'')), (ascii ''drink'', JBool True)]"
  let ?b200 = "[(ascii ''employee_id'', JStr (ascii ''E200'')), (ascii ''drink'', JBool True)]"
  let ?a200 = "[(ascii ''employee_id'', JStr (ascii ''E200'')), (ascii ''drink'', JBool False)]"
  let ?e300 = "[(ascii ''employee_id'', JStr (ascii ''E300'')), (ascii ''drink'', JBool True)]"
  have absent: "\<forall>e\<in>set [?a200, ?e300]. \<not> same_employee e ?e100"
    by (simp add: same_employee_def strict_eq_def field_def ascii_def)
  have q: "quitters (ascii ''drink'') [?e100, ?b200] [?a200, ?e300] = [?b200]"
    by (simp add: quitters_def same_employee_def strict_eq_def field_def truthy_def ascii_def)
  have n: "newOnset (ascii ''drink'') [?e100, ?b200] [?a200, ?e300] = [?e300]"
    by (simp add: newOnset_def same_employee_def strict_eq_def field_def truthy_def ascii_def)
  from transition_cohorts [of "ascii ''drink''" "[?e100, ?b200]" "[?a200, ?e300]" ?e100] absent q n
  show ?thesis by simp
qed

section \<open>Rounding to double precision\<close>

lemma bits_upper: "n < 2 ^ bits n"
proof (induction n rule: bits.induct)
  case (1 n)
  show ?case
  proof (cases "n = 0")
    case True
    then show ?thesis by (simp add: bits.simps)
  next
    case False
    then have "n div 2 < 2 ^ bits (n div 2)" by (rule "1.IH")
    then have "n < 2 * 2 ^ bits (n div 2)" by linarith
    with False show ?thesis by (subst bits.simps) simp
  qed
qed

lemma bits_pos: "0 < n \<Longrightarrow> 0 < bits n"
  by (subst bits.simps) simp

lemma bits_lower: "0 < n \<Longrightarrow> 2 ^ (bits n - 1) \<le> n"
proof (induction n rule: bits.induct)
  case (1 n)
  then have n: "n \<noteq> 0" by simp
  have step: "bits n - 1 = bits (n div 2)" using n by (subst bits.simps) simp
  show ?case
  proof (cases "n div 2 = 0")
    case True
    then have "bits (n div 2) = 0" by (simp add: bits.simps)
    with step "1.prems" show ?thesis by simp
  next
    case False
    then have pos: "0 < n div 2" by simp
    with n have "2 ^ (bits (n div 2) - 1) \<le> n div 2" by (rule "1.IH")
    moreover have "bits (n div 2) = Suc (bits (n div 2) - 1)"
      using bits_pos [OF pos] by simp
    ultimately have "2 ^ bits (n div 2) \<le> 2 * (n div 2)"
      by (metis mult_le_mono2 power_Suc)
    then show ?thesis unfolding step by linarith
  qed
qed

lemma exponent_lower: "0 < x \<Longrightarrow> 2 powi exponent x \<le> x"
proof (cases "1 \<le> x")
  case True
  let ?m = "nat \<lfloor>x\<rfloor>"
  have m: "0 < ?m" using True by simp
  have "exponent x = int (bits ?m - 1)"
    using True bits_pos [OF m] by (simp add: exponent_def)
  then have "(2::real) powi exponent x = 2 ^ (bits ?m - 1)" by simp
  also have "\<dots> \<le> real ?m"
    using bits_lower [OF m] by (metis of_nat_le_iff of_nat_numeral of_nat_power)
  also have "\<dots> \<le> x" using True by simp
  finally show ?thesis .
next
  case False
  assume x: "0 < x"
  let ?m = "nat (\<lceil>1 / x\<rceil> - 1)"
  have "1 < 1 / x" using False x by simp
  then have c: "2 \<le> \<lceil>1 / x\<rceil>" by linarith
  have "int ?m < 2 ^ bits ?m"
    using bits_upper [of ?m] by (metis of_nat_less_iff of_nat_numeral of_nat_power)
  moreover have "0 \<le> \<lceil>1 / x\<rceil> - 1" using c by linarith
  then have "int ?m = \<lceil>1 / x\<rceil> - 1" by (rule nat_0_le)
  ultimately have "\<lceil>1 / x\<rceil> \<le> 2 ^ bits ?m" by linarith
  then have "real_of_int \<lceil>1 / x\<rceil> \<le> real_of_int (2 ^ bits ?m)"
    by (simp only: of_int_le_iff)
  then have "real_of_int \<lceil>1 / x\<rceil> \<le> 2 ^ bits ?m" by simp
  then have "1 / x \<le> 2 ^ bits ?m" by linarith
  then have "1 / 2 ^ bits ?m \<le> x"
    using x by (simp add: field_simps)
  moreover have "(2::real) powi exponent x = 1 / 2 ^ bits ?m"
    using False by (simp add: exponent_def power_int_minus_divide)
  ultimately show ?thesis by simp
qed

lemma exponent_upper: "0 < x \<Longrightarrow> x < 2 powi (exponent x + 1)"
proof (cases "1 \<le> x")
  case True
  let ?m = "nat \<lfloor>x\<rfloor>"
  have "exponent x + 1 = int (bits ?m)"
    using True by (simp add: exponent_def)
  then have p: "(2::real) powi (exponent x + 1) = 2 ^ bits ?m" by simp
  have "int ?m < 2 ^ bits ?m"
    using bits_upper [of ?m] by (metis of_nat_less_iff of_nat_numeral of_nat_power)
  moreover have "0 \<le> \<lfloor>x\<rfloor>" using True by simp
  then have "int ?m = \<lfloor>x\<rfloor>" by (rule nat_0_le)
  ultimately have "\<lfloor>x\<rfloor> + 1 \<le> 2 ^ bits ?m" by linarith
  then have "real_of_int (\<lfloor>x\<rfloor> + 1) \<le> real_of_int (2 ^ bits ?m)"
    by (simp only: of_int_le_iff)
  then have "real_of_int (\<lfloor>x\<rfloor> + 1) \<le> 2 ^ bits ?m" by simp
  then have "x < 2 ^ bits ?m" by linarith
  with p show ?thesis by simp
next
  case False
  assume x: "0 < x"
  let ?m = "nat (\<lceil>1 / x\<rceil> - 1)"
  have "1 < 1 / x" using False x by simp
  then have c: "2 \<le> \<lceil>1 / x\<rceil>" by linarith
  then have nn: "0 \<le> \<lceil>1 / x\<rceil> - 1" and m: "0 < ?m" by linarith+
  have im: "int ?m = \<lceil>1 / x\<rceil> - 1" using nn by (rule nat_0_le)
  have "int (2 ^ (bits ?m - 1)) \<le> int ?m"
    using bits_lower [OF m] by (simp only: of_nat_le_iff)
  then have "2 ^ (bits ?m - 1) \<le> \<lceil>1 / x\<rceil> - 1" unfolding im by simp
  then have "real_of_int (2 ^ (bits ?m - 1)) \<le> real_of_int (\<lceil>1 / x\<rceil> - 1)"
    by (simp only: of_int_le_iff)
  then have "2 ^ (bits ?m - 1) \<le> real_of_int (\<lceil>1 / x\<rceil> - 1)" by simp
  also have "\<dots> < 1 / x" by linarith
  finally have "x * 2 ^ (bits ?m - 1) < 1"
    using x by (simp add: field_simps)
  then have lt: "x < 1 / 2 ^ (bits ?m - 1)"
    by (simp add: field_simps)
  have "exponent x + 1 = - int (bits ?m - 1)"
    using False bits_pos [OF m] by (simp add: exponent_def)
  then have "(2::real) powi (exponent x + 1) = 1 / 2 ^ (bits ?m - 1)"
    by (simp add: power_int_minus_divide)
  with lt show ?thesis by simp
qed

lemma exponent_unique:
  assumes "2 powi e \<le> x" and "x < 2 powi (e + 1)"
  shows "exponent x = e"
proof -
  have x: "0 < x" using assms(1) zero_less_power_int [of "2::real" e] by linarith
  have "(2::real) powi e < 2 powi (exponent x + 1)"
    using assms(1) exponent_upper [OF x] by linarith
  then have a: "e < exponent x + 1"
    using power_int_increasing [of "exponent x + 1" e "2::real"] by (cases "e < exponent x + 1") auto
  have "(2::real) powi exponent x < 2 powi (e + 1)"
    using assms(2) exponent_lower [OF x] by linarith
  then have b: "exponent x < e + 1"
    using power_int_increasing [of "e + 1" "exponent x" "2::real"] by (cases "exponent x < e + 1") auto
  from a b show ?thesis by linarith
qed

lemma round_even_cases:
  "round_even r = \<lfloor>r\<rfloor> \<and> r - of_int \<lfloor>r\<rfloor> \<le> 1 / 2 \<or>
   round_even r = \<lfloor>r\<rfloor> + 1 \<and> 1 / 2 \<le> r - of_int \<lfloor>r\<rfloor>"
  by (auto simp: round_even_def Let_def)

lemma round_even_error: "\<bar>of_int (round_even r) - r\<bar> \<le> 1 / 2"
  using round_even_cases [of r] by (auto; linarith)

lemma round_even_le: "r \<le> of_int N \<Longrightarrow> round_even r \<le> N"
proof -
  assume le: "r \<le> of_int N"
  show ?thesis
  proof (cases "r = of_int N")
    case True
    then show ?thesis by (simp add: round_even_def)
  next
    case False
    with le have "r < of_int N" by simp
    then have "\<lfloor>r\<rfloor> < N" by (simp add: floor_less_iff)
    then show ?thesis using round_even_cases [of r] by linarith
  qed
qed

lemma round_even_nonneg: "0 \<le> r \<Longrightarrow> 0 \<le> round_even r"
proof -
  assume "0 \<le> r"
  then have "0 \<le> \<lfloor>r\<rfloor>" by simp
  then show ?thesis using round_even_cases [of r] by linarith
qed


lemma binary64_positive:
  "0 < x \<Longrightarrow>
   binary64 x =
     of_int (round_even (x / 2 powi (max (exponent x) (- 1022) - 52))) *
       2 powi (max (exponent x) (- 1022) - 52)"
  by (simp add: binary64_def Let_def)

lemma binary64_zero: "binary64 0 = 0"
  by (simp add: binary64_def)

lemma binary64_eval:
  assumes "2 powi e \<le> x" and "x < 2 powi (e + 1)" and "- 1022 \<le> e"
  shows "binary64 x = of_int (round_even (x / 2 powi (e - 52))) * 2 powi (e - 52)"
proof -
  have x: "0 < x" using assms(1) zero_less_power_int [of "2::real" e] by linarith
  have "exponent x = e" using assms(1,2) by (rule exponent_unique)
  with assms(3) have "max (exponent x) (- 1022) = e" by simp
  with binary64_positive [OF x] show ?thesis by simp
qed

lemma binary64_nonneg: "0 \<le> x \<Longrightarrow> 0 \<le> binary64 x"
proof (cases "x = 0")
  case True
  then show ?thesis by (simp add: binary64_zero)
next
  case False
  assume "0 \<le> x"
  with False have x: "0 < x" by simp
  let ?u = "(2::real) powi (max (exponent x) (- 1022) - 52)"
  have u: "0 < ?u" by simp
  then have "0 \<le> x / ?u" using x by simp
  then have "0 \<le> round_even (x / ?u)" by (rule round_even_nonneg)
  then have "0 \<le> real_of_int (round_even (x / ?u)) * ?u" using u by simp
  then show ?thesis by (simp only: binary64_positive [OF x])
qed

lemma binary64_le_int:
  assumes x: "0 < x" and le: "x \<le> of_int B" and small: "x < 2 ^ 53"
  shows "binary64 x \<le> of_int B"
proof -
  let ?e = "max (exponent x) (- 1022)"
  let ?u = "(2::real) powi (?e - 52)"
  have u: "0 < ?u" by simp
  have "(2::real) powi exponent x < 2 powi 53"
    using exponent_lower [OF x] small by simp
  then have "exponent x < 53"
    using power_int_increasing [of 53 "exponent x" "2::real"] by (cases "exponent x < 53") auto
  then have e: "0 \<le> 52 - ?e" by simp
  have "?u * 2 powi (52 - ?e) = 2 powi ((?e - 52) + (52 - ?e))"
    by (subst power_int_add) simp_all
  then have inv: "?u * 2 ^ nat (52 - ?e) = 1"
    using e by (simp add: power_int_nonneg_exp)
  have "of_int B / ?u = of_int B * (?u * 2 ^ nat (52 - ?e)) / ?u" by (simp only: inv mult_1_right)
  also have "\<dots> = of_int B * 2 ^ nat (52 - ?e)" using u by simp
  also have "\<dots> = real_of_int (B * 2 ^ nat (52 - ?e))" by simp
  finally have int: "of_int B / ?u = real_of_int (B * 2 ^ nat (52 - ?e))" .
  have "x / ?u \<le> of_int B / ?u" using le u by (simp add: divide_right_mono)
  then have "x / ?u \<le> real_of_int (B * 2 ^ nat (52 - ?e))" by (simp only: int)
  then have "round_even (x / ?u) \<le> B * 2 ^ nat (52 - ?e)" by (rule round_even_le)
  then have "real_of_int (round_even (x / ?u)) \<le> real_of_int (B * 2 ^ nat (52 - ?e))"
    by (simp only: of_int_le_iff)
  then have "real_of_int (round_even (x / ?u)) * ?u \<le> real_of_int (B * 2 ^ nat (52 - ?e)) * ?u"
    using u by (simp only: mult_le_cancel_right_pos)
  also have "\<dots> = of_int B / ?u * ?u" by (simp only: int)
  also have "\<dots> = of_int B" using u by simp
  finally show ?thesis by (simp only: binary64_positive [OF x])
qed

lemma binary64_error:
  assumes x: "0 < x" and normal: "2 powi (- 1022) \<le> x"
  shows "\<bar>binary64 x - x\<bar> \<le> x / 2 ^ 53"
proof -
  let ?e = "exponent x"
  let ?u = "(2::real) powi (?e - 52)"
  have u: "0 < ?u" by simp
  have "(2::real) powi (- 1022) < 2 powi (?e + 1)"
    using normal exponent_upper [OF x] by linarith
  then have "- 1022 < ?e + 1"
    using power_int_increasing [of "?e + 1" "- 1022" "2::real"] by (cases "- 1022 < ?e + 1") auto
  then have "max ?e (- 1022) = ?e" by simp
  then have b: "binary64 x = real_of_int (round_even (x / ?u)) * ?u"
    using binary64_positive [OF x] by simp
  have "?u = 2 powi ?e / 2 ^ 52"
    by (subst power_int_diff) simp_all
  also have "\<dots> \<le> x / 2 ^ 52"
    using exponent_lower [OF x] by (simp add: divide_right_mono)
  finally have ux: "?u \<le> x / 2 ^ 52" .
  have "binary64 x - x = (real_of_int (round_even (x / ?u)) - x / ?u) * ?u"
    using u by (simp add: b algebra_simps)
  then have "\<bar>binary64 x - x\<bar> = \<bar>real_of_int (round_even (x / ?u)) - x / ?u\<bar> * ?u"
    using u by (simp add: abs_mult)
  also have "\<dots> \<le> 1 / 2 * ?u"
    using round_even_error [of "x / ?u"] u by (simp only: mult_le_cancel_right_pos)
  also have "\<dots> \<le> 1 / 2 * (x / 2 ^ 52)" using ux by simp
  also have "\<dots> = x / 2 ^ 53" by simp
  finally show ?thesis .
qed


section \<open>Rates\<close>

lemma rate_zero: "rate n 0 = 0"
  by (simp add: rate_def)

lemma rate_none: "rate 0 n = 0"
  by (simp add: rate_def binary64_zero)

lemma rate_bounds:
  assumes "c \<le> n"
  shows "0 \<le> rate c n \<and> rate c n \<le> 100"
proof (cases "c = 0 \<or> n = 0")
  case True
  then show ?thesis by (auto simp: rate_zero rate_none)
next
  case False
  then have c: "0 < c" and n: "0 < n" by simp_all
  let ?q = "real c / real n"
  have q: "0 < ?q" using c n by simp
  have q1: "?q \<le> real_of_int 1" using assms n by simp
  have "?q < 2 ^ 53" using q1 by simp
  with q q1 have f1: "binary64 ?q \<le> real_of_int 1" by (rule binary64_le_int)
  have f0: "0 \<le> binary64 ?q" using q by (simp add: binary64_nonneg)
  let ?p = "binary64 ?q * 100"
  have p0: "0 \<le> ?p" using f0 by simp
  have p1: "?p \<le> real_of_int 100" using f1 by simp
  have "binary64 ?p \<le> real_of_int 100"
  proof (cases "?p = 0")
    case True
    then show ?thesis by (simp add: binary64_zero)
  next
    case False
    with p0 have "0 < ?p" by simp
    moreover have "?p < 2 ^ 53" using p1 by simp
    ultimately show ?thesis using p1 by (intro binary64_le_int)
  qed
  moreover have "0 \<le> binary64 ?p" using p0 by (rule binary64_nonneg)
  ultimately show ?thesis using n by (simp add: rate_def)
qed

lemma abs_diff_bounds: "\<bar>a - b\<bar> \<le> d \<Longrightarrow> a - b \<le> d \<and> b - a \<le> (d::real)"
  by linarith

lemma rate_accuracy:
  assumes c: "0 < c" and le: "c \<le> n" and n: "n < 2 ^ 32"
  shows "\<bar>rate c n - real c / real n * 100\<bar> \<le> real c / real n * 100 * (1 / 2 ^ 52 + 1 / 2 ^ 106)"
proof -
  define q where "q = real c / real n"
  define f where "f = binary64 q"
  define p where "p = f * 100"
  define r where "r = binary64 p"
  define t :: real where "t = 2 powi (- 1022)"
  have npos: "0 < n" using c le by simp
  have q: "0 < q" using c npos by (simp add: q_def)
  have "real n \<le> 2 ^ 32" using n by (metis less_imp_le of_nat_le_iff of_nat_numeral of_nat_power)
  then have "1 / 2 ^ 32 \<le> 1 / real n" using npos by (simp add: frac_le)
  also have "\<dots> \<le> q" using c npos by (simp add: q_def divide_right_mono)
  finally have qlow: "1 / 2 ^ 32 \<le> q" .
  have "(2::real) powi (- 1022) \<le> 2 powi (- 33)"
    by (rule power_int_increasing) simp_all
  then have tiny: "t \<le> 1 / 2 ^ 33"
    unfolding t_def by (simp only: power_int_minus_divide power_int_numeral)
  have "t \<le> q" using tiny qlow by simp
  then have "2 powi (- 1022) \<le> q" unfolding t_def .
  with q have "\<bar>binary64 q - q\<bar> \<le> q / 2 ^ 53" by (rule binary64_error)
  then have e1: "\<bar>f - q\<bar> \<le> q / 2 ^ 53" unfolding f_def .
  have k: "(2::real) ^ 53 = 9007199254740992" by simp
  note a = abs_diff_bounds [OF e1, unfolded k]
  have a1: "f - q \<le> q / 9007199254740992" and a2: "q - f \<le> q / 9007199254740992"
    using a by blast+
  have fhalf: "q / 2 \<le> f" using a2 q by linarith
  have fpos: "0 < f" using fhalf q by linarith
  have ppos: "0 < p" using fpos by (simp add: p_def)
  have t33: "t \<le> 1 / 8589934592" using tiny by simp
  have q32: "1 / 4294967296 \<le> q" using qlow by simp
  have "t \<le> f * 100" using t33 q32 fhalf fpos by linarith
  then have "2 powi (- 1022) \<le> p" unfolding t_def p_def .
  with ppos have "\<bar>binary64 p - p\<bar> \<le> p / 2 ^ 53" by (rule binary64_error)
  then have e2: "\<bar>r - f * 100\<bar> \<le> f * 100 / 2 ^ 53" unfolding r_def p_def .
  note b = abs_diff_bounds [OF e2, unfolded k]
  have b1: "r - f * 100 \<le> f * 100 / 9007199254740992"
    and b2: "f * 100 - r \<le> f * 100 / 9007199254740992"
    using b by blast+
  have up: "f * (100 + 100 / 9007199254740992) \<le> (q + q / 9007199254740992) * (100 + 100 / 9007199254740992)"
    using a1 by (intro mult_right_mono) simp_all
  have "r \<le> f * (100 + 100 / 9007199254740992)" using b1 by (simp add: algebra_simps)
  with up have "r \<le> (q + q / 9007199254740992) * (100 + 100 / 9007199254740992)" by linarith
  also have "\<dots> = q * 100 + q * 100 * (1 / 4503599627370496 + 1 / 81129638414606681695789005144064)"
    by (simp add: algebra_simps)
  finally have "r - q * 100 \<le> q * 100 * (1 / 4503599627370496 + 1 / 81129638414606681695789005144064)"
    by linarith
  moreover have down: "(q - q / 9007199254740992) * (100 - 100 / 9007199254740992) \<le> f * (100 - 100 / 9007199254740992)"
    using a2 by (intro mult_right_mono) simp_all
  have "f * (100 - 100 / 9007199254740992) \<le> r" using b2 by (simp add: algebra_simps)
  with down have "(q - q / 9007199254740992) * (100 - 100 / 9007199254740992) \<le> r" by linarith
  moreover have "(q - q / 9007199254740992) * (100 - 100 / 9007199254740992) =
      q * 100 - q * 100 * (1 / 4503599627370496 - 1 / 81129638414606681695789005144064)"
    by (simp add: algebra_simps)
  ultimately have "r - q * 100 \<le> q * 100 * (1 / 4503599627370496 + 1 / 81129638414606681695789005144064)"
    and "q * 100 - r \<le> q * 100 * (1 / 4503599627370496 + 1 / 81129638414606681695789005144064)"
    using q by (simp_all add: algebra_simps)
  then have "\<bar>r - q * 100\<bar> \<le> q * 100 * (1 / 4503599627370496 + 1 / 81129638414606681695789005144064)"
    by (simp only: abs_le_iff) simp
  then have "\<bar>r - q * 100\<bar> \<le> q * 100 * (1 / 2 ^ 52 + 1 / 2 ^ 106)" by simp
  moreover have "rate c n = r"
    using npos by (simp add: rate_def r_def p_def f_def q_def)
  ultimately show ?thesis by (simp add: q_def)
qed

lemma binary64_11_20: "binary64 (11 / 20) = 4953959590107546 / 2 ^ 53"
  by (subst binary64_eval [where e = "- 1"])
    (simp_all add: round_even_def Let_def power_int_minus_divide)

lemma binary64_55: "binary64 (4953959590107546 / 2 ^ 53 * 100) = 55 + 1 / 2 ^ 47"
  by (subst binary64_eval [where e = 5])
    (simp_all add: round_even_def Let_def power_int_minus_divide)

lemma rate_11_20: "rate 11 20 = 55 + 1 / 2 ^ 47"
  by (simp only: rate_def binary64_11_20 binary64_55 of_nat_numeral) simp

lemma binary64_1: "binary64 1 = 1"
  by (subst binary64_eval [where e = 0])
    (simp_all add: round_even_def Let_def power_int_minus_divide)

lemma binary64_100: "binary64 100 = 100"
  by (subst binary64_eval [where e = 6])
    (simp_all add: round_even_def Let_def power_int_minus_divide)

lemma rate_all: "rate (Suc 0) (Suc 0) = 100"
  by (simp add: rate_def binary64_1 binary64_100)


text \<open>
  Claim C4, amended. \<open>rate\<close> is called with the number of records that satisfy a predicate
  and the size of the collection, as in the drinking and smoking rates of the two pages
  (\<open>flagRate\<close>). Its result is the count divided by the size, times 100, as double
  precision computes it: the quotient rounded to the nearest double, multiplied by 100
  and rounded again. It is exactly 0 for the empty collection, it lies between 0 and 100
  for every collection, and for a collection of fewer than \<open>2^32\<close> records (every array)
  it differs from the exact value of the formula by at most that value times
  \<open>2^-52 + 2^-106\<close>.
\<close>

theorem rate_in_double_precision:
  "rate (length (filter P xs)) (length xs) =
     (if xs = [] then 0
      else binary64 (binary64 (real (length (filter P xs)) / real (length xs)) * 100)) \<and>
   0 \<le> rate (length (filter P xs)) (length xs) \<and>
   rate (length (filter P xs)) (length xs) \<le> 100 \<and>
   (xs \<noteq> [] \<and> length xs < 2 ^ 32 \<longrightarrow>
      \<bar>rate (length (filter P xs)) (length xs) -
         real (length (filter P xs)) / real (length xs) * 100\<bar>
      \<le> real (length (filter P xs)) / real (length xs) * 100 * (1 / 2 ^ 52 + 1 / 2 ^ 106)) \<and>
   flagRate flag rows =
     rate (length (filter (\<lambda>d. truthy (field d flag)) rows)) (length rows)"
proof -
  let ?c = "length (filter P xs)" and ?n = "length xs"
  have le: "?c \<le> ?n" by simp
  have a: "rate ?c ?n = (if xs = [] then 0 else binary64 (binary64 (real ?c / real ?n) * 100))"
    by (simp add: rate_def)
  have b: "0 \<le> rate ?c ?n \<and> rate ?c ?n \<le> 100"
    using le by (rule rate_bounds)
  have c: "xs \<noteq> [] \<and> ?n < 2 ^ 32 \<longrightarrow>
      \<bar>rate ?c ?n - real ?c / real ?n * 100\<bar>
      \<le> real ?c / real ?n * 100 * (1 / 2 ^ 52 + 1 / 2 ^ 106)"
  proof (cases "?c = 0")
    case True
    then show ?thesis by (simp add: rate_none)
  next
    case False
    then have "0 < ?c" by simp
    then show ?thesis using le by (intro impI rate_accuracy) simp_all
  qed
  have d: "flagRate flag rows =
      rate (length (filter (\<lambda>d. truthy (field d flag)) rows)) (length rows)"
    by (simp add: flagRate_def flagged_def)
  from a b c d show ?thesis by blast
qed

theorem rate_in_double_precision_witness:
  "replicate 11 True @ replicate 9 False \<noteq> [] \<and>
   length (replicate 11 True @ replicate 9 False) < 2 ^ 32 \<and>
   rate (length (filter (\<lambda>b. b) (replicate 11 True @ replicate 9 False)))
     (length (replicate 11 True @ replicate 9 False)) = 55 + 1 / 2 ^ 47 \<and>
   \<bar>55 + 1 / 2 ^ 47 - 11 / 20 * 100 :: real\<bar> \<le> 11 / 20 * 100 * (1 / 2 ^ 52 + 1 / 2 ^ 106)"
proof -
  let ?xs = "replicate 11 True @ replicate 9 False"
  have c: "length (filter (\<lambda>b. b) ?xs) = 11" by simp
  have n: "length ?xs = 20" by simp
  have ne: "?xs \<noteq> []" by simp
  have small: "length ?xs < 2 ^ 32" by simp
  have "\<bar>rate (length (filter (\<lambda>b. b) ?xs)) (length ?xs) -
        real (length (filter (\<lambda>b. b) ?xs)) / real (length ?xs) * 100\<bar>
      \<le> real (length (filter (\<lambda>b. b) ?xs)) / real (length ?xs) * 100 * (1 / 2 ^ 52 + 1 / 2 ^ 106)"
    using rate_in_double_precision [of "\<lambda>b. b" ?xs] ne small by blast
  then have acc: "\<bar>55 + 1 / 2 ^ 47 - 11 / 20 * 100 :: real\<bar> \<le> 11 / 20 * 100 * (1 / 2 ^ 52 + 1 / 2 ^ 106)"
    unfolding c n rate_11_20 by simp
  have r: "rate (length (filter (\<lambda>b. b) ?xs)) (length ?xs) = 55 + 1 / 2 ^ 47"
    unfolding c n by (rule rate_11_20)
  show ?thesis by (intro conjI ne small r acc)
qed

text \<open>
  The claim as it was worded has the rate equal to the count divided by the size, times
  100. For 11 records of 20 the code returns \<open>55.00000000000001\<close>, the double above 55.
\<close>

theorem rate_11_of_20_is_rounded:
  "rate 11 20 = 55 + 1 / 2 ^ 47 \<and> rate 11 20 \<noteq> 11 / 20 * 100"
  by (simp add: rate_11_20)

section \<open>Normalization: keys, values and rows\<close>

text \<open>The two tables with their literals evaluated to code units.\<close>

lemmas THAI_TO_ENGLISH_MAP_eval = THAI_TO_ENGLISH_MAP_def [unfolded ascii_def, simplified]
lemmas Object_prototype_eval = Object_prototype_def [unfolded native_function_def ascii_def, simplified]

lemma table_values_shape:
  "list_all (\<lambda>e. canonical e \<and> \<not> inherited e) (map snd THAI_TO_ENGLISH_MAP)"
  by (simp add: canonical_def inherited_def THAI_TO_ENGLISH_MAP_eval Object_prototype_eval)

lemma table_keys_shape:
  "list_all (\<lambda>k. \<not> canonical k \<and> \<not> rendered k) (map fst THAI_TO_ENGLISH_MAP)"
  by (simp add: canonical_def rendered_def THAI_TO_ENGLISH_MAP_eval)

lemma prototype_shape:
  "list_all (\<lambda>kv. \<not> rendered (fst kv) \<and> rendered (snd kv)) Object_prototype"
  by (simp add: rendered_def Object_prototype_eval)

lemma table_value: "map_of THAI_TO_ENGLISH_MAP k = Some e \<Longrightarrow> canonical e \<and> \<not> inherited e"
proof -
  assume "map_of THAI_TO_ENGLISH_MAP k = Some e"
  then have "e \<in> set (map snd THAI_TO_ENGLISH_MAP)"
    by (force dest: map_of_SomeD)
  with table_values_shape show ?thesis
    unfolding list_all_iff by blast
qed

lemma table_key: "map_of THAI_TO_ENGLISH_MAP k = Some e \<Longrightarrow> \<not> canonical k \<and> \<not> rendered k"
proof -
  assume "map_of THAI_TO_ENGLISH_MAP k = Some e"
  then have "k \<in> set (map fst THAI_TO_ENGLISH_MAP)"
    by (force dest: map_of_SomeD)
  with table_keys_shape show ?thesis
    unfolding list_all_iff by blast
qed

lemma prototype_entry: "map_of Object_prototype k = Some p \<Longrightarrow> \<not> rendered k \<and> rendered p"
proof -
  assume "map_of Object_prototype k = Some p"
  then have "(k, p) \<in> set Object_prototype"
    by (rule map_of_SomeD)
  with prototype_shape show ?thesis
    unfolding list_all_iff by fastforce
qed

lemma inherited_map_of: "inherited k = (map_of Object_prototype k \<noteq> None)"
  by (simp add: inherited_def map_of_eq_None_iff)

lemma englishKey_canonical: "canonical e \<Longrightarrow> \<not> inherited e \<Longrightarrow> englishKey e = e"
proof -
  assume c: "canonical e" and i: "\<not> inherited e"
  have "map_of THAI_TO_ENGLISH_MAP e = None"
    using c table_key [of e] by (cases "map_of THAI_TO_ENGLISH_MAP e") auto
  moreover have "map_of Object_prototype e = None"
    using i by (simp add: inherited_map_of)
  ultimately show ?thesis by (simp add: englishKey_def)
qed

lemma englishKey_rendered: "rendered p \<Longrightarrow> englishKey p = p"
proof -
  assume r: "rendered p"
  have "map_of THAI_TO_ENGLISH_MAP p = None"
    using r table_key [of p] by (cases "map_of THAI_TO_ENGLISH_MAP p") auto
  moreover have "map_of Object_prototype p = None"
    using r prototype_entry [of p] by (cases "map_of Object_prototype p") auto
  ultimately show ?thesis by (simp add: englishKey_def)
qed

lemma englishKey_idem: "englishKey (englishKey k) = englishKey k"
proof (cases "map_of THAI_TO_ENGLISH_MAP k")
  case (Some e)
  then have e: "canonical e \<and> \<not> inherited e" by (rule table_value)
  then have "e \<noteq> []" by (simp add: canonical_def)
  with Some have "englishKey k = e" by (simp add: englishKey_def)
  with e show ?thesis by (simp add: englishKey_canonical)
next
  case None
  show ?thesis
  proof (cases "map_of Object_prototype k")
    case (Some p)
    with None have "englishKey k = p" by (simp add: englishKey_def)
    moreover from Some have "rendered p" by (simp add: prototype_entry)
    ultimately show ?thesis by (simp add: englishKey_rendered)
  next
    case None2: None
    with None have "englishKey k = k" by (simp add: englishKey_def)
    then show ?thesis by simp
  qed
qed

lemma toBooleanFlag_JBool: "toBooleanFlag (JBool b) = b"
  by (simp add: toBooleanFlag_def)

lemma normalizeValue_idem: "normalizeValue ek (normalizeValue ek v) = normalizeValue ek v"
  by (simp add: normalizeValue_def toBooleanFlag_JBool)

lemma normalizedEntry_idem: "normalizedEntry (normalizedEntry kv) = normalizedEntry kv"
  by (simp add: normalizedEntry_def englishKey_idem normalizeValue_idem)

lemma normalizeKey_update:
  "normalizeKey acc kv = AList.update (fst (normalizedEntry kv)) (snd (normalizedEntry kv)) acc"
  by (simp add: normalizeKey_def normalizedEntry_def obj_set_def Let_def)

lemma map_of_fold_normalizeKey:
  "map_of (foldl normalizeKey acc item) = map_of acc ++ map_of (rev (map normalizedEntry item))"
proof (induction item arbitrary: acc)
  case Nil
  show ?case by simp
next
  case (Cons kv item)
  have "map_of (normalizeKey acc kv) = map_of acc ++ map_of [normalizedEntry kv]"
    by (simp add: normalizeKey_update update_conv')
  then show ?case
    by (simp add: Cons.IH del: map_of.simps)
qed

lemma distinct_fold_normalizeKey:
  "distinct (map fst acc) \<Longrightarrow> distinct (map fst (foldl normalizeKey acc item))"
  by (induction item arbitrary: acc) (simp_all add: normalizeKey_update distinct_update)

lemma set_update_subset: "set (AList.update k v al) \<subseteq> insert (k, v) (set al)"
  by (induction al) auto

lemma set_fold_normalizeKey:
  "set (foldl normalizeKey acc item) \<subseteq> set acc \<union> normalizedEntry ` set item"
proof (induction item arbitrary: acc)
  case Nil
  show ?case by simp
next
  case (Cons kv item)
  have "set (normalizeKey acc kv) \<subseteq> insert (normalizedEntry kv) (set acc)"
    using set_update_subset [of "fst (normalizedEntry kv)" "snd (normalizedEntry kv)" acc]
    by (simp add: normalizeKey_update)
  with Cons.IH [of "normalizeKey acc kv"] show ?case by auto
qed

lemma update_fresh: "k \<notin> fst ` set al \<Longrightarrow> AList.update k v al = al @ [(k, v)]"
  by (induction al) auto

lemma fold_normalizeKey_settled:
  "distinct (map fst (acc @ item)) \<Longrightarrow> \<forall>kv\<in>set item. normalizedEntry kv = kv \<Longrightarrow>
   foldl normalizeKey acc item = acc @ item"
proof (induction item arbitrary: acc)
  case Nil
  show ?case by simp
next
  case (Cons kv item)
  have ne: "normalizedEntry kv = kv" using Cons.prems(2) by simp
  have fresh: "fst kv \<notin> fst ` set acc" using Cons.prems(1) by auto
  have step: "normalizeKey acc kv = acc @ [kv]"
    using update_fresh [OF fresh, of "snd kv"] by (simp add: normalizeKey_update ne)
  have "distinct (map fst ((acc @ [kv]) @ item))" using Cons.prems(1) by simp
  moreover have "\<forall>x\<in>set item. normalizedEntry x = x" using Cons.prems(2) by simp
  ultimately have "foldl normalizeKey (acc @ [kv]) item = (acc @ [kv]) @ item"
    by (rule Cons.IH)
  with step show ?case by simp
qed

lemma normalizeItem_settled:
  "distinct (map fst item) \<Longrightarrow> \<forall>kv\<in>set item. normalizedEntry kv = kv \<Longrightarrow> normalizeItem item = item"
  using fold_normalizeKey_settled [of "[]" item] by (simp add: normalizeItem_def)

lemma normalizeItem_distinct: "distinct (map fst (normalizeItem item))"
  by (simp add: normalizeItem_def distinct_fold_normalizeKey)

lemma normalizeItem_entries: "kv \<in> set (normalizeItem item) \<Longrightarrow> normalizedEntry kv = kv"
  using set_fold_normalizeKey [of "[]" item] by (auto simp: normalizeItem_def normalizedEntry_idem)

lemma normalizeItem_idem: "normalizeItem (normalizeItem item) = normalizeItem item"
  by (rule normalizeItem_settled) (simp_all add: normalizeItem_distinct normalizeItem_entries)

lemma normalizeItem_enumeration:
  assumes "mset item' = mset (normalizeItem item)"
  shows "normalizeItem item' = item'"
proof (rule normalizeItem_settled)
  have "mset (map fst item') = mset (map fst (normalizeItem item))"
    using assms by (metis mset_map)
  then show "distinct (map fst item')"
    using normalizeItem_distinct [of item] by (metis mset_eq_imp_distinct_iff)
  have "set item' = set (normalizeItem item)" using assms by (rule mset_eq_setD)
  then show "\<forall>kv\<in>set item'. normalizedEntry kv = kv"
    by (simp add: normalizeItem_entries)
qed

section \<open>Key resolution\<close>

text \<open>
  For a key that is not the name of an inherited property the resolution is the table's
  entry, or the key itself when the table has none; the two spellings of the
  triglyceride column resolve to the same field.
\<close>

lemma englishKey_own_or_unchanged:
  "\<not> inherited k \<Longrightarrow>
   englishKey k = (case map_of THAI_TO_ENGLISH_MAP k of Some e \<Rightarrow> e | None \<Rightarrow> k)"
proof (cases "map_of THAI_TO_ENGLISH_MAP k")
  case None
  assume "\<not> inherited k"
  with None show ?thesis by (simp add: englishKey_def inherited_map_of)
next
  case (Some e)
  then have "e \<noteq> []" using table_value [of k e] by (simp add: canonical_def)
  with Some show ?thesis by (simp add: englishKey_def)
qed

lemma englishKey_triglyceride:
  "englishKey (ascii ''Triglyceride 30-150  mg%'') = ascii ''triglyceride'' \<and>
   englishKey (ascii ''Triglyceride 30-150 mg%'') = ascii ''triglyceride''"
  by (simp add: englishKey_def THAI_TO_ENGLISH_MAP_eval ascii_def)

lemma englishKey_constructor:
  "map_of THAI_TO_ENGLISH_MAP (ascii ''constructor'') = None \<and>
   englishKey (ascii ''constructor'') = native_function ''Object''"
  by (simp add: englishKey_def THAI_TO_ENGLISH_MAP_eval Object_prototype_eval ascii_def native_function_def)

lemma englishKey_BMI: "englishKey (ascii ''BMI'') = ascii ''bmi''"
  by (simp add: englishKey_def THAI_TO_ENGLISH_MAP_eval ascii_def)

lemma englishKey_drink: "englishKey (ascii ''DRINK'') = ascii ''drink''"
  by (simp add: englishKey_def THAI_TO_ENGLISH_MAP_eval ascii_def)

text \<open>
  Claim C7. The claim lets every key outside the lookup table pass through unchanged.
  The column name \<open>constructor\<close> is not in the table, yet the row comes back with the
  property \<open>function Object() { [native code] }\<close> in its place: the read
  \<open>THAI_TO_ENGLISH_MAP[key]\<close> finds the inherited \<open>Object.prototype.constructor\<close>, which is
  truthy, so \<open>|| key\<close> does not apply.
\<close>

theorem inherited_key_renamed:
  "map_of THAI_TO_ENGLISH_MAP (ascii ''constructor'') = None \<and>
   normalizeData (Some [[(ascii ''constructor'', JStr (ascii ''x''))]]) =
     [[(ascii ''function Object() { [native code] }'', JStr (ascii ''x''))]] \<and>
   ascii ''function Object() { [native code] }'' \<noteq> ascii ''constructor''"
  using englishKey_constructor
  by (simp add: normalizeData_def normalizeItem_def normalizeKey_def normalizeValue_def
      obj_set_def native_function_def checkmark_def ascii_def)

section \<open>Rows are kept, one for one\<close>

text \<open>
  Claim C8. \<open>normalizeData\<close> returns as many records as it is given, and the record at
  each position is the normalization of the input record at that position: none is
  dropped, merged, duplicated or moved, whatever keys it has.
\<close>

theorem normalize_preserves_records:
  "length (normalizeData (Some rows)) = length rows \<and>
   (\<forall>i<length rows. normalizeData (Some rows) ! i = normalizeItem (rows ! i))"
  by (simp add: normalizeData_def)

theorem normalize_preserves_records_witness:
  "length (normalizeData (Some [[(ascii ''BMI'', JNum (ascii ''23.5''))], [], [(ascii ''zzz'', JNull)]])) = 3 \<and>
   normalizeData (Some [[(ascii ''BMI'', JNum (ascii ''23.5''))], [], [(ascii ''zzz'', JNull)]]) ! 1 = normalizeItem [] \<and>
   normalizeData (Some [[(ascii ''BMI'', JNum (ascii ''23.5''))], [], [(ascii ''zzz'', JNull)]]) ! 2 =
     normalizeItem [(ascii ''zzz'', JNull)]"
  using normalize_preserves_records [of "[[(ascii ''BMI'', JNum (ascii ''23.5''))], [], [(ascii ''zzz'', JNull)]]"]
  by simp

section \<open>Two keys with one canonical name\<close>

lemma keys_normalizeItem: "fst ` set (normalizeItem item) = englishKey ` fst ` set item"
proof -
  have "dom (map_of (normalizeItem item)) = dom (map_of (rev (map normalizedEntry item)))"
    by (simp add: normalizeItem_def map_of_fold_normalizeKey)
  then show ?thesis
    by (simp add: dom_map_of_conv_image_fst image_image normalizedEntry_def)
qed

lemma card_image_less: "finite A \<Longrightarrow> \<not> inj_on f A \<Longrightarrow> card (f ` A) < card A"
  using card_image_le [of A f] eq_card_imp_inj_on [of A f] by fastforce

lemma length_normalizeItem: "length (normalizeItem item) = card (englishKey ` fst ` set item)"
proof -
  have "length (normalizeItem item) = length (map fst (normalizeItem item))" by simp
  also have "\<dots> = card (set (map fst (normalizeItem item)))"
    using normalizeItem_distinct [of item] by (simp only: distinct_card)
  finally show ?thesis by (simp add: keys_normalizeItem)
qed

lemma last_writer:
  "map_of (rev (map normalizedEntry item)) c =
     (if filter (\<lambda>kv. englishKey (fst kv) = c) item = [] then None
      else Some (normalizeValue c (snd (last (filter (\<lambda>kv. englishKey (fst kv) = c) item)))))"
proof (induction item rule: rev_induct)
  case Nil
  show ?case by simp
next
  case (snoc x item)
  show ?case
  proof (cases "englishKey (fst x) = c")
    case True
    then show ?thesis
      by (simp add: normalizedEntry_def)
  next
    case False
    with snoc.IH show ?thesis
      by (simp add: normalizedEntry_def)
  qed
qed

text \<open>
  Claim C10. When a record has two different keys that resolve to the same canonical
  name, the normalized record has strictly fewer properties than the record had keys,
  every property name occurs once, and under the shared name it holds the (normalized)
  value of the last of the record's keys, in enumeration order, that resolve to it.
\<close>

theorem collision_last_writer:
  assumes "distinct (map fst item)"
    and "(k1, v1) \<in> set item" and "(k2, v2) \<in> set item"
    and "k1 \<noteq> k2" and "englishKey k1 = englishKey k2"
  shows "length (normalizeItem item) < length item \<and>
         distinct (map fst (normalizeItem item)) \<and>
         map_of (normalizeItem item) (englishKey k1) =
           Some (normalizeValue (englishKey k1)
             (snd (last (filter (\<lambda>kv. englishKey (fst kv) = englishKey k1) item))))"
proof -
  let ?K = "fst ` set item"
  have k: "k1 \<in> ?K" "k2 \<in> ?K" using assms(2,3) by force+
  have "\<not> inj_on englishKey ?K"
    using k assms(4,5) by (auto simp: inj_on_def)
  then have "card (englishKey ` ?K) < card ?K"
    by (simp add: card_image_less)
  moreover have "card ?K = length item"
    using assms(1) distinct_card [of "map fst item"] by simp
  ultimately have len: "length (normalizeItem item) < length item"
    by (simp add: length_normalizeItem)
  have "filter (\<lambda>kv. englishKey (fst kv) = englishKey k1) item \<noteq> []"
    using assms(2) by (force simp: filter_empty_conv)
  then have "map_of (normalizeItem item) (englishKey k1) =
      Some (normalizeValue (englishKey k1)
        (snd (last (filter (\<lambda>kv. englishKey (fst kv) = englishKey k1) item))))"
    by (simp add: normalizeItem_def map_of_fold_normalizeKey last_writer)
  with len normalizeItem_distinct show ?thesis by simp
qed

theorem collision_last_writer_witness:
  "length (normalizeItem [(ascii ''Triglyceride 30-150  mg%'', JNum (ascii ''120'')),
                          (ascii ''Triglyceride 30-150 mg%'', JNum (ascii ''130''))]) < 2 \<and>
   map_of (normalizeItem [(ascii ''Triglyceride 30-150  mg%'', JNum (ascii ''120'')),
                          (ascii ''Triglyceride 30-150 mg%'', JNum (ascii ''130''))])
     (ascii ''triglyceride'') = Some (JNum (ascii ''130''))"
proof -
  let ?k1 = "ascii ''Triglyceride 30-150  mg%''" and ?k2 = "ascii ''Triglyceride 30-150 mg%''"
  let ?item = "[(?k1, JNum (ascii ''120'')), (?k2, JNum (ascii ''130''))]"
  have ne: "?k1 \<noteq> ?k2" by (simp add: ascii_def)
  have d: "distinct (map fst ?item)" using ne by simp
  have e: "englishKey ?k1 = englishKey ?k2" by (simp add: englishKey_triglyceride)
  have v: "normalizeValue (ascii ''triglyceride'') (JNum (ascii ''130'')) = JNum (ascii ''130'')"
    by (simp add: normalizeValue_def ascii_def)
  from collision_last_writer [OF d _ _ ne e, of "JNum (ascii ''120'')" "JNum (ascii ''130'')"] v
  show ?thesis by (simp add: englishKey_triglyceride)
qed

section \<open>Idempotence\<close>

lemma normalizeValue_JBool: "normalizeValue ek (JBool b) = JBool b"
  by (simp add: normalizeValue_def toBooleanFlag_JBool)

text \<open>
  Claim C9. Normalizing a normalized sequence of records returns it unchanged. The same
  holds whatever order the second pass meets the properties of a normalized record in:
  any enumeration of them is returned as it is. A canonical field name resolves to
  itself, resolving twice is resolving once, and a boolean value is left as it is under
  every property name.
\<close>

theorem normalize_idempotent:
  "normalizeData (Some (normalizeData rows)) = normalizeData rows \<and>
   (mset item' = mset (normalizeItem item) \<longrightarrow> normalizeItem item' = item') \<and>
   (map_of THAI_TO_ENGLISH_MAP k = Some e \<longrightarrow> englishKey e = e) \<and>
   englishKey (englishKey k) = englishKey k \<and>
   normalizeValue ek (JBool b) = JBool b"
proof -
  have "normalizeData (Some (normalizeData rows)) = normalizeData rows"
    by (cases rows) (simp_all add: normalizeData_def normalizeItem_idem)
  moreover have "map_of THAI_TO_ENGLISH_MAP k = Some e \<longrightarrow> englishKey e = e"
    using table_value [of k e] by (auto simp: englishKey_canonical)
  ultimately show ?thesis
    by (simp add: normalizeItem_enumeration englishKey_idem normalizeValue_JBool)
qed

lemma toBooleanFlag_no: "toBooleanFlag (JStr (ascii ''no'')) = False"
  by (simp add: toBooleanFlag_def trim_def isWhiteSpace_def ToString_def startsWith_def
      thai_mai_def falsy_def array_includes_def toLowerCase_def checkmark_def ascii_def)

theorem normalize_idempotent_witness:
  "mset [(ascii ''bmi'', JNum (ascii ''23.5'')), (ascii ''drink'', JBool False)] =
     mset (normalizeItem [(ascii ''DRINK'', JStr (ascii ''no'')), (ascii ''BMI'', JNum (ascii ''23.5''))]) \<and>
   normalizeItem [(ascii ''bmi'', JNum (ascii ''23.5'')), (ascii ''drink'', JBool False)] =
     [(ascii ''bmi'', JNum (ascii ''23.5'')), (ascii ''drink'', JBool False)] \<and>
   map_of THAI_TO_ENGLISH_MAP (ascii ''BMI'') = Some (ascii ''bmi'') \<and>
   englishKey (ascii ''bmi'') = ascii ''bmi''"
proof -
  let ?item = "[(ascii ''DRINK'', JStr (ascii ''no'')), (ascii ''BMI'', JNum (ascii ''23.5''))]"
  let ?item' = "[(ascii ''bmi'', JNum (ascii ''23.5'')), (ascii ''drink'', JBool False)]"
  have ne: "ascii ''bmi'' \<noteq> ascii ''drink''" "ascii ''bmi'' \<noteq> ascii ''smoke''"
    by (simp_all add: ascii_def)
  have n: "normalizeItem ?item = [(ascii ''drink'', JBool False), (ascii ''bmi'', JNum (ascii ''23.5''))]"
    using ne by (simp add: normalizeItem_def normalizeKey_def normalizeValue_def obj_set_def
        englishKey_BMI englishKey_drink toBooleanFlag_no checkmark_def)
  have m: "mset ?item' = mset (normalizeItem ?item)"
    by (simp add: n)
  have t: "map_of THAI_TO_ENGLISH_MAP (ascii ''BMI'') = Some (ascii ''bmi'')"
    by (simp add: THAI_TO_ENGLISH_MAP_eval ascii_def)
  from normalize_idempotent [of "Some [?item]" ?item' ?item "ascii ''BMI''" "ascii ''bmi''"] m t
  show ?thesis by simp
qed

section \<open>The lifestyle flags\<close>

lemma dropWhile_none: "\<forall>c\<in>set xs. \<not> P c \<Longrightarrow> dropWhile P xs = xs"
  by (cases xs) simp_all

lemma trim_no_whitespace: "\<forall>c\<in>set s. \<not> isWhiteSpace c \<Longrightarrow> trim s = s"
proof -
  assume a: "\<forall>c\<in>set s. \<not> isWhiteSpace c"
  then have "\<forall>c\<in>set (rev s). \<not> isWhiteSpace c" by simp
  then have "dropWhile isWhiteSpace (rev s) = rev s" by (rule dropWhile_none)
  moreover from a have "dropWhile isWhiteSpace s = s" by (rule dropWhile_none)
  ultimately show ?thesis by (simp add: trim_def)
qed

lemma isWhiteSpace_range: "isWhiteSpace c \<Longrightarrow> c \<le> 0x20 \<or> 0xA0 \<le> c"
  unfolding isWhiteSpace_def set_simps insert_iff empty_iff
  by (elim disjE) simp_all

lemma lower_keeps_whitespace:
  "isWhiteSpace (if 0x41 \<le> c \<and> c \<le> 0x5A then c + 0x20 else c) = isWhiteSpace c"
proof (cases "0x41 \<le> c \<and> c \<le> 0x5A")
  case True
  then have "\<not> isWhiteSpace c" "\<not> isWhiteSpace (c + 0x20)"
    using isWhiteSpace_range [of c] isWhiteSpace_range [of "c + 0x20"] by linarith+
  with True show ?thesis by simp
next
  case False
  then show ?thesis by auto
qed

lemma falsy_shape: "list_all (list_all (\<lambda>c. \<not> isWhiteSpace c)) falsy"
  by (simp add: falsy_def ascii_def isWhiteSpace_def)

lemma falsy_no_whitespace: "w \<in> set falsy \<Longrightarrow> \<forall>c\<in>set w. \<not> isWhiteSpace c"
  using falsy_shape unfolding list_all_iff by blast

lemma trim_falsy: "toLowerCase s \<in> set falsy \<Longrightarrow> trim s = s"
proof (rule trim_no_whitespace, rule ballI)
  fix c
  assume f: "toLowerCase s \<in> set falsy" and c: "c \<in> set s"
  let ?l = "\<lambda>c::nat. if 0x41 \<le> c \<and> c \<le> 0x5A then c + 0x20 else c"
  have "?l c \<in> ?l ` set s" using c by (rule imageI)
  then have "?l c \<in> set (toLowerCase s)" by (simp only: toLowerCase_def set_map)
  with f have "\<not> isWhiteSpace (?l c)" using falsy_no_whitespace by blast
  then show "\<not> isWhiteSpace c" using lower_keeps_whitespace [of c] by blast
qed

lemma thai_mai_not_whitespace: "\<forall>c\<in>set thai_mai. \<not> isWhiteSpace c"
  by (simp add: thai_mai_def isWhiteSpace_def)

lemma trim_thai_mai: "startsWith s thai_mai \<Longrightarrow> startsWith (trim s) thai_mai"
proof -
  assume st: "startsWith s thai_mai"
  have l: "length thai_mai = 3" by (simp add: thai_mai_def)
  from st have "take 3 s = thai_mai" unfolding startsWith_def l .
  then have s: "s = thai_mai @ drop 3 s"
    using append_take_drop_id [of 3 s] by metis
  define rest where "rest = drop 3 s"
  have s': "s = thai_mai @ rest" using s rest_def by simp
  have front: "dropWhile isWhiteSpace s = s"
    by (subst (1 2) s') (simp add: thai_mai_def isWhiteSpace_def)
  have tail: "\<exists>t. dropWhile isWhiteSpace (rev s) = t @ rev thai_mai"
  proof (cases "\<forall>c\<in>set (rev rest). isWhiteSpace c")
    case True
    have "dropWhile isWhiteSpace (rev thai_mai) = rev thai_mai"
      by (simp add: thai_mai_def isWhiteSpace_def)
    moreover from True have "dropWhile isWhiteSpace (rev rest @ rev thai_mai) =
        dropWhile isWhiteSpace (rev thai_mai)"
      by (intro dropWhile_append2) blast
    ultimately have "dropWhile isWhiteSpace (rev s) = [] @ rev thai_mai"
      by (simp add: s')
    then show ?thesis by blast
  next
    case False
    then obtain x where "x \<in> set (rev rest)" "\<not> isWhiteSpace x" by blast
    then have "dropWhile isWhiteSpace (rev rest @ rev thai_mai) =
        dropWhile isWhiteSpace (rev rest) @ rev thai_mai"
      by (rule dropWhile_append1)
    then have "dropWhile isWhiteSpace (rev s) = dropWhile isWhiteSpace (rev rest) @ rev thai_mai"
      by (simp add: s')
    then show ?thesis by blast
  qed
  then obtain t where "dropWhile isWhiteSpace (rev s) = t @ rev thai_mai" by blast
  then have "trim s = thai_mai @ rev t"
    by (simp add: trim_def front)
  then show ?thesis by (simp add: startsWith_def)
qed

lemma toBooleanFlag_string:
  "s \<noteq> checkmark \<Longrightarrow>
   toBooleanFlag (JStr s) =
     (trim s \<noteq> [] \<and> \<not> startsWith (trim s) thai_mai \<and> toLowerCase (trim s) \<notin> set falsy)"
proof (cases "s = []")
  case True
  then show ?thesis by (simp add: toBooleanFlag_def trim_def)
next
  case False
  assume "s \<noteq> checkmark"
  with False show ?thesis
    by (auto simp: toBooleanFlag_def ToString_def Let_def array_includes_def)
qed

lemma toBooleanFlag_number:
  "toBooleanFlag (JNum n) =
     (trim n \<noteq> [] \<and> \<not> startsWith (trim n) thai_mai \<and> toLowerCase (trim n) \<notin> set falsy)"
  by (auto simp: toBooleanFlag_def ToString_def Let_def array_includes_def)

text \<open>
  Claim C5, with its last rule amended. \<open>toBooleanFlag\<close> returns \<open>true\<close> or \<open>false\<close> on every
  primitive value. \<open>null\<close>, \<open>undefined\<close> and the empty string give \<open>false\<close>; a boolean is
  returned as it is; the checkmark gives \<open>true\<close>; a string that begins with the Thai
  negation prefix gives \<open>false\<close>; a string that is, case-insensitively, one of the falsy
  words gives \<open>false\<close>. Every other string, and every number through its rendering, is
  judged on its text with the white space trimmed from both ends: the result is \<open>true\<close>
  exactly when the trimmed text is not empty, does not begin with the negation prefix
  and is not, case-insensitively, a falsy word.
\<close>

theorem toBooleanFlag_rules:
  "(toBooleanFlag v = True \<or> toBooleanFlag v = False) \<and>
   toBooleanFlag JNull = False \<and> toBooleanFlag JUndefined = False \<and>
   toBooleanFlag (JStr []) = False \<and>
   toBooleanFlag (JBool b) = b \<and>
   toBooleanFlag (JStr checkmark) = True \<and>
   (startsWith s thai_mai \<longrightarrow> toBooleanFlag (JStr s) = False) \<and>
   (toLowerCase s \<in> set falsy \<longrightarrow> toBooleanFlag (JStr s) = False) \<and>
   (s \<noteq> checkmark \<longrightarrow>
      toBooleanFlag (JStr s) =
        (trim s \<noteq> [] \<and> \<not> startsWith (trim s) thai_mai \<and> toLowerCase (trim s) \<notin> set falsy)) \<and>
   toBooleanFlag (JNum n) =
     (trim n \<noteq> [] \<and> \<not> startsWith (trim n) thai_mai \<and> toLowerCase (trim n) \<notin> set falsy)"
proof -
  have basic: "toBooleanFlag JNull = False" "toBooleanFlag JUndefined = False"
    "toBooleanFlag (JStr []) = False" "toBooleanFlag (JStr checkmark) = True"
    by (simp_all add: toBooleanFlag_def checkmark_def)
  have mai: "startsWith s thai_mai \<longrightarrow> toBooleanFlag (JStr s) = False"
  proof
    assume m: "startsWith s thai_mai"
    then have "s \<noteq> checkmark" by (auto simp: startsWith_def thai_mai_def checkmark_def)
    with m show "toBooleanFlag (JStr s) = False"
      by (simp add: toBooleanFlag_string trim_thai_mai)
  qed
  have fal: "toLowerCase s \<in> set falsy \<longrightarrow> toBooleanFlag (JStr s) = False"
  proof
    assume f: "toLowerCase s \<in> set falsy"
    then have "s \<noteq> checkmark"
      by (auto simp: toLowerCase_def falsy_def checkmark_def ascii_def)
    with f show "toBooleanFlag (JStr s) = False"
      by (simp add: toBooleanFlag_string trim_falsy)
  qed
  from basic mai fal show ?thesis
    using toBooleanFlag_string [of s] toBooleanFlag_number [of n]
    by (simp only: toBooleanFlag_JBool) blast
qed

theorem toBooleanFlag_rules_witness:
  "startsWith (thai_mai @ [0x0E2A, 0x0E39, 0x0E1A]) thai_mai \<and>
   toBooleanFlag (JStr (thai_mai @ [0x0E2A, 0x0E39, 0x0E1A])) = False \<and>
   toLowerCase (ascii ''N/A'') \<in> set falsy \<and>
   toBooleanFlag (JStr (ascii ''N/A'')) = False \<and>
   ascii ''yes'' \<noteq> checkmark \<and>
   toBooleanFlag (JStr (ascii ''yes'')) = True \<and>
   toBooleanFlag (JNum (ascii ''0'')) = False"
proof -
  have a: "startsWith (thai_mai @ [0x0E2A, 0x0E39, 0x0E1A]) thai_mai"
    by (simp add: startsWith_def thai_mai_def)
  have b: "toLowerCase (ascii ''N/A'') \<in> set falsy"
    by (simp add: toLowerCase_def falsy_def ascii_def)
  have c: "ascii ''yes'' \<noteq> checkmark"
    by (simp add: checkmark_def ascii_def)
  have d: "trim (ascii ''yes'') \<noteq> [] \<and> \<not> startsWith (trim (ascii ''yes'')) thai_mai \<and>
      toLowerCase (trim (ascii ''yes'')) \<notin> set falsy"
    by (simp add: trim_def isWhiteSpace_def startsWith_def thai_mai_def toLowerCase_def
        falsy_def ascii_def)
  have e: "\<not> (trim (ascii ''0'') \<noteq> [] \<and> \<not> startsWith (trim (ascii ''0'')) thai_mai \<and>
      toLowerCase (trim (ascii ''0'')) \<notin> set falsy)"
    by (simp add: trim_def isWhiteSpace_def startsWith_def thai_mai_def toLowerCase_def
        falsy_def ascii_def)
  have r1: "toBooleanFlag (JStr (thai_mai @ [0x0E2A, 0x0E39, 0x0E1A])) = False"
    using toBooleanFlag_rules [of _ _ "thai_mai @ [0x0E2A, 0x0E39, 0x0E1A]"] a by blast
  have r2: "toBooleanFlag (JStr (ascii ''N/A'')) = False"
    using toBooleanFlag_rules [of _ _ "ascii ''N/A''"] b by blast
  have r3: "toBooleanFlag (JStr (ascii ''yes'')) = True"
    using toBooleanFlag_rules [of _ _ "ascii ''yes''"] c d by blast
  have r4: "toBooleanFlag (JNum (ascii ''0'')) = False"
    using toBooleanFlag_rules [of _ _ _ "ascii ''0''"] e by blast
  from a b c r1 r2 r3 r4 show ?thesis by blast
qed

text \<open>
  The claim as it was worded sends every other non-empty string to \<open>true\<close>. A single
  space is non-empty, is not the checkmark, does not begin with the negation prefix and
  is no falsy word, and the code returns \<open>false\<close> for it.
\<close>

theorem whitespace_string_is_false:
  "JStr [0x20] \<noteq> JStr [] \<and> [0x20] \<noteq> checkmark \<and> \<not> startsWith [0x20] thai_mai \<and>
   toLowerCase [0x20] \<notin> set falsy \<and> toBooleanFlag (JStr [0x20]) = False"
  by (simp add: toBooleanFlag_def trim_def isWhiteSpace_def ToString_def startsWith_def
      thai_mai_def falsy_def array_includes_def toLowerCase_def checkmark_def ascii_def)

section \<open>Numeric cells\<close>

lemma field_normalizeItem:
  "field (normalizeItem item) c =
     (if filter (\<lambda>kv. englishKey (fst kv) = c) item = [] then JUndefined
      else normalizeValue c (snd (last (filter (\<lambda>kv. englishKey (fst kv) = c) item))))"
  by (simp add: field_def normalizeItem_def map_of_fold_normalizeKey last_writer)

lemma normalizeValue_other:
  "ek \<noteq> ascii ''drink'' \<Longrightarrow> ek \<noteq> ascii ''smoke'' \<Longrightarrow> v \<noteq> JStr checkmark \<Longrightarrow>
   normalizeValue ek v = v"
  by (simp add: normalizeValue_def)

lemma normalizeValue_cases:
  "ek \<noteq> ascii ''drink'' \<Longrightarrow> ek \<noteq> ascii ''smoke'' \<Longrightarrow>
   normalizeValue ek v = v \<or> v = JStr checkmark \<and> normalizeValue ek v = JBool True"
  by (simp add: normalizeValue_def)

lemma normalizeItem_values:
  assumes "(c, w) \<in> set (normalizeItem item)" and "c \<noteq> ascii ''drink''" and "c \<noteq> ascii ''smoke''"
  shows "\<exists>kv\<in>set item. englishKey (fst kv) = c \<and>
           (w = snd kv \<or> snd kv = JStr checkmark \<and> w = JBool True)"
proof -
  have "(c, w) \<in> normalizedEntry ` set item"
    using assms(1) set_fold_normalizeKey [of "[]" item] by (auto simp: normalizeItem_def)
  then obtain kv where kv: "kv \<in> set item" and eq: "(c, w) = normalizedEntry kv" by blast
  from eq have c: "englishKey (fst kv) = c" and w: "w = normalizeValue c (snd kv)"
    by (simp_all add: normalizedEntry_def)
  from normalizeValue_cases [OF assms(2,3), of "snd kv"] w
  have "w = snd kv \<or> snd kv = JStr checkmark \<and> w = JBool True" by auto
  with kv c show ?thesis by blast
qed

lemma fetchData_no_error:
  "error (select_limit sb (ascii ''health_2024'') 5000) = None \<Longrightarrow>
   error (select_limit sb (ascii ''health_2025'') 5000) = None \<Longrightarrow>
   fetchData True sb =
     Inr (map normalizeItem (or_empty (data (select_limit sb (ascii ''health_2024'') 5000))),
          map normalizeItem (or_empty (data (select_limit sb (ascii ''health_2025'') 5000))))"
  by (simp add: fetchData_def normalizeData_def Let_def)

lemma fetchData_fails:
  "(fetchData True sb = Inl e) =
     (error (select_limit sb (ascii ''health_2024'') 5000) = Some e \<or>
      error (select_limit sb (ascii ''health_2024'') 5000) = None \<and>
      error (select_limit sb (ascii ''health_2025'') 5000) = Some e)"
  by (auto simp: fetchData_def Let_def split: option.splits)

lemma englishKey_sgot:
  "englishKey (ascii ''SGOT 5-40 U/L'') = ascii ''sgot'' \<and> englishKey (ascii ''SGOT'') = ascii ''sgot''"
  by (simp add: englishKey_def THAI_TO_ENGLISH_MAP_eval ascii_def)

text \<open>
  Claim C2, amended. Loading does not parse numbers. Of the keys of a row that resolve
  to one field name, the cell of the last one is the cell kept under that name; when the
  field is not a lifestyle flag and the cell is not the checkmark, it is kept exactly as
  the store gave it. Every value that a loaded record holds under a name other than the
  two flags is a cell of the row as it was, or \<open>true\<close> for a checkmark cell: none is
  made \<open>null\<close> or zero, so a malformed numeric cell that is kept stays the text it was.
  No cell makes the load fail: \<open>fetchData\<close> fails exactly when a query reports an error,
  with that error, and otherwise returns the normalized rows of both years.
\<close>

theorem cells_kept_as_loaded:
  assumes "(k, v) \<in> set item"
    and "last (filter (\<lambda>kv. englishKey (fst kv) = englishKey k) item) = (k, v)"
    and "englishKey k \<noteq> ascii ''drink''" and "englishKey k \<noteq> ascii ''smoke''"
    and "v \<noteq> JStr checkmark"
  shows "field (normalizeItem item) (englishKey k) = v \<and>
    (\<forall>c w. (c, w) \<in> set (normalizeItem item) \<and> c \<noteq> ascii ''drink'' \<and> c \<noteq> ascii ''smoke'' \<longrightarrow>
       (\<exists>kv\<in>set item. englishKey (fst kv) = c \<and>
          (w = snd kv \<or> snd kv = JStr checkmark \<and> w = JBool True))) \<and>
    ((fetchData True sb = Inl e) =
       (error (select_limit sb (ascii ''health_2024'') 5000) = Some e \<or>
        error (select_limit sb (ascii ''health_2024'') 5000) = None \<and>
        error (select_limit sb (ascii ''health_2025'') 5000) = Some e)) \<and>
    (error (select_limit sb (ascii ''health_2024'') 5000) = None \<and>
     error (select_limit sb (ascii ''health_2025'') 5000) = None \<longrightarrow>
     fetchData True sb =
       Inr (map normalizeItem (or_empty (data (select_limit sb (ascii ''health_2024'') 5000))),
            map normalizeItem (or_empty (data (select_limit sb (ascii ''health_2025'') 5000)))))"
proof -
  let ?f = "filter (\<lambda>kv. englishKey (fst kv) = englishKey k) item"
  have ne: "?f \<noteq> []" using assms(1) by (force simp: filter_empty_conv)
  then have "field (normalizeItem item) (englishKey k) = normalizeValue (englishKey k) (snd (last ?f))"
    by (simp add: field_normalizeItem)
  then have a: "field (normalizeItem item) (englishKey k) = v"
    using assms(2,3,4,5) by (simp add: normalizeValue_other)
  have b: "\<forall>c w. (c, w) \<in> set (normalizeItem item) \<and> c \<noteq> ascii ''drink'' \<and> c \<noteq> ascii ''smoke'' \<longrightarrow>
       (\<exists>kv\<in>set item. englishKey (fst kv) = c \<and>
          (w = snd kv \<or> snd kv = JStr checkmark \<and> w = JBool True))"
    using normalizeItem_values by blast
  from a b fetchData_fails [of sb e] fetchData_no_error [of sb] show ?thesis by blast
qed

theorem cells_kept_as_loaded_witness:
  "last (filter (\<lambda>kv. englishKey (fst kv) = englishKey (ascii ''SGOT''))
     [(ascii ''SGOT 5-40 U/L'', JStr (ascii ''abc'')), (ascii ''SGOT'', JNum (ascii ''12''))]) =
     (ascii ''SGOT'', JNum (ascii ''12'')) \<and>
   field (normalizeItem
     [(ascii ''SGOT 5-40 U/L'', JStr (ascii ''abc'')), (ascii ''SGOT'', JNum (ascii ''12''))])
     (ascii ''sgot'') = JNum (ascii ''12'') \<and>
   field (normalizeItem
     [(ascii ''SGOT'', JNum (ascii ''12'')), (ascii ''SGOT 5-40 U/L'', JStr (ascii ''abc''))])
     (ascii ''sgot'') = JStr (ascii ''abc'') \<and>
   fetchData True (table_store (\<lambda>t. Some [[(ascii ''BMI'', JStr (ascii ''abc''))]]) ()) =
     Inr (map normalizeItem [[(ascii ''BMI'', JStr (ascii ''abc''))]],
          map normalizeItem [[(ascii ''BMI'', JStr (ascii ''abc''))]])"
proof -
  let ?long = "(ascii ''SGOT 5-40 U/L'', JStr (ascii ''abc''))"
  let ?short = "(ascii ''SGOT'', JNum (ascii ''12''))"
  let ?sb = "table_store (\<lambda>t. Some [[(ascii ''BMI'', JStr (ascii ''abc''))]]) ()"
  have ne: "ascii ''sgot'' \<noteq> ascii ''drink''" "ascii ''sgot'' \<noteq> ascii ''smoke''"
    "ascii ''abc'' \<noteq> checkmark"
    by (simp_all add: ascii_def checkmark_def)
  have l1: "last (filter (\<lambda>kv. englishKey (fst kv) = englishKey (ascii ''SGOT'')) [?long, ?short]) = ?short"
    by (simp add: englishKey_sgot)
  have l2: "last (filter (\<lambda>kv. englishKey (fst kv) = englishKey (ascii ''SGOT 5-40 U/L''))
      [?short, ?long]) = ?long"
    by (simp add: englishKey_sgot)
  have d: "englishKey (ascii ''SGOT'') \<noteq> ascii ''drink''" "englishKey (ascii ''SGOT'') \<noteq> ascii ''smoke''"
    "englishKey (ascii ''SGOT 5-40 U/L'') \<noteq> ascii ''drink''"
    "englishKey (ascii ''SGOT 5-40 U/L'') \<noteq> ascii ''smoke''"
    using ne by (simp_all add: englishKey_sgot)
  have v: "JNum (ascii ''12'') \<noteq> JStr checkmark" "JStr (ascii ''abc'') \<noteq> JStr checkmark"
    using ne by simp_all
  have f: "error (select_limit ?sb (ascii ''health_2024'') 5000) = None"
    "error (select_limit ?sb (ascii ''health_2025'') 5000) = None"
    by (simp_all add: table_store_def)
  have g: "or_empty (data (select_limit ?sb t 5000)) = [[(ascii ''BMI'', JStr (ascii ''abc''))]]" for t
    by (simp add: table_store_def or_empty_def)
  have r1: "field (normalizeItem [?long, ?short]) (englishKey (ascii ''SGOT'')) = JNum (ascii ''12'')"
    by (rule cells_kept_as_loaded [OF _ l1 d(1,2) v(1), THEN conjunct1]) simp
  have r2: "field (normalizeItem [?short, ?long]) (englishKey (ascii ''SGOT 5-40 U/L'')) = JStr (ascii ''abc'')"
    by (rule cells_kept_as_loaded [OF _ l2 d(3,4) v(2), THEN conjunct1]) simp
  have "fetchData True ?sb =
      Inr (map normalizeItem (or_empty (data (select_limit ?sb (ascii ''health_2024'') 5000))),
           map normalizeItem (or_empty (data (select_limit ?sb (ascii ''health_2025'') 5000))))"
    by (rule cells_kept_as_loaded [OF _ l1 d(1,2) v(1), of ?sb,
          THEN conjunct2, THEN conjunct2, THEN conjunct2, THEN mp]) (simp_all add: f)
  then have r3: "fetchData True ?sb =
      Inr (map normalizeItem [[(ascii ''BMI'', JStr (ascii ''abc''))]],
           map normalizeItem [[(ascii ''BMI'', JStr (ascii ''abc''))]])"
    by (simp only: g)
  from l1 r1 r2 r3 show ?thesis by (simp add: englishKey_sgot)
qed

text \<open>
  The claim as it was worded turns a value that does not parse into \<open>null\<close>. The cell
  \<open>abc\<close> of the column \<open>BMI\<close> is loaded as the string \<open>abc\<close> under \<open>bmi\<close>.
\<close>

theorem malformed_numeric_cell_kept:
  "fetchData True (table_store (\<lambda>t. Some [[(ascii ''BMI'', JStr (ascii ''abc''))]]) ()) =
     Inr ([[(ascii ''bmi'', JStr (ascii ''abc''))]], [[(ascii ''bmi'', JStr (ascii ''abc''))]]) \<and>
   field [(ascii ''bmi'', JStr (ascii ''abc''))] (ascii ''bmi'') \<noteq> JNull"
proof -
  have ne: "ascii ''bmi'' \<noteq> ascii ''drink''" "ascii ''bmi'' \<noteq> ascii ''smoke''"
    "ascii ''abc'' \<noteq> checkmark"
    by (simp_all add: ascii_def checkmark_def)
  have n: "normalizeItem [(ascii ''BMI'', JStr (ascii ''abc''))] = [(ascii ''bmi'', JStr (ascii ''abc''))]"
    using ne by (simp add: normalizeItem_def normalizeKey_def normalizeValue_def obj_set_def englishKey_BMI)
  show ?thesis
    by (simp add: fetchData_def table_store_def normalizeData_def or_empty_def field_def n)
qed

section \<open>Branch breakdown\<close>

lemma set_foldl_Set_add: "set (foldl Set_add acc xs) = set acc \<union> set xs"
  by (induction xs arbitrary: acc) (auto simp: Set_add_def)

lemma distinct_foldl_Set_add: "distinct acc \<Longrightarrow> distinct (foldl Set_add acc xs)"
  by (induction xs arbitrary: acc) (auto simp: Set_add_def)

lemma set_new_Set: "set (new_Set xs) = set xs"
  by (simp add: new_Set_def set_foldl_Set_add)

lemma distinct_new_Set: "distinct (new_Set xs)"
  by (simp add: new_Set_def distinct_foldl_Set_add)

lemma mset_insert_by: "mset (insert_by cmp x ys) = add_mset x (mset ys)"
  by (induction ys) simp_all

lemma mset_sort_by: "mset (sort_by cmp xs) = mset xs"
  by (induction xs) (simp_all add: sort_by_def mset_insert_by)

lemma set_insert_by: "set (insert_by cmp x ys) = insert x (set ys)"
  by (induction ys) auto

lemma descending_insert_by:
  "sorted_wrt (\<lambda>a b. key b \<le> (key a :: real)) ys \<Longrightarrow>
   sorted_wrt (\<lambda>a b. key b \<le> key a) (insert_by (\<lambda>a b. key b - key a) x ys)"
  by (induction ys) (auto simp: set_insert_by)

lemma descending_sort_by:
  "sorted_wrt (\<lambda>a b. key b \<le> (key a :: real)) (sort_by (\<lambda>a b. key b - key a) xs)"
  by (induction xs) (simp_all add: sort_by_def descending_insert_by)

lemma ties_insert_by:
  "filter (\<lambda>r. key r = q) (insert_by (\<lambda>a b. key b - (key a :: real)) x ys) =
   filter (\<lambda>r. key r = q) (x # ys)"
  by (induction ys) auto

lemma ties_sort_by:
  "filter (\<lambda>r. key r = q) (sort_by (\<lambda>a b. key b - (key a :: real)) xs) = filter (\<lambda>r. key r = q) xs"
  by (induction xs) (simp_all add: sort_by_def ties_insert_by)

lemma truthy_strict_eq: "truthy b \<Longrightarrow> strict_eq x b = (x = b)"
  by (auto simp: strict_eq_def truthy_def)

lemma set_branch_names:
  "set (branch_names data2024 data2025) =
     {b. truthy b \<and> b \<in> (\<lambda>d. field d (ascii ''branch'')) ` (set data2024 \<union> set data2025)}"
  by (auto simp: branch_names_def set_new_Set)

lemma name_branch_stats: "name (branch_stats flag data2024 data2025 b) = b"
  by (simp add: branch_stats_def Let_def)

lemma map_name_branch_stats: "map (name \<circ> branch_stats flag data2024 data2025) bs = bs"
  by (induction bs) (simp_all add: name_branch_stats)

text \<open>
  Claim C6. The rows of the breakdown carry, each once, exactly the truthy \<open>branch\<close>
  values found in either year (for a string: the non-empty ones). Every row holds the
  counts and rates of its branch in both years, the rates as double precision computes
  them, and for a year without a record of the branch its total and rate are 0. The rows are in descending order of the later year's
  rate, and rows with equal rate stand in the order of the branch set.
\<close>

theorem branch_breakdown:
  "set (map name (branches flag data2024 data2025)) =
     {b. truthy b \<and> b \<in> (\<lambda>d. field d (ascii ''branch'')) ` (set data2024 \<union> set data2025)} \<and>
   distinct (map name (branches flag data2024 data2025)) \<and>
   (\<forall>r\<in>set (branches flag data2024 data2025).
      r = branch_stats flag data2024 data2025 (name r) \<and>
      total2024 r = length (filter (\<lambda>d. field d (ascii ''branch'') = name r) data2024) \<and>
      total2025 r = length (filter (\<lambda>d. field d (ascii ''branch'') = name r) data2025) \<and>
      ((\<forall>d\<in>set data2024. field d (ascii ''branch'') \<noteq> name r) \<longrightarrow>
         total2024 r = 0 \<and> rate2024 r = 0) \<and>
      ((\<forall>d\<in>set data2025. field d (ascii ''branch'') \<noteq> name r) \<longrightarrow>
         total2025 r = 0 \<and> rate2025 r = 0)) \<and>
   sorted_wrt (\<lambda>a b. rate2025 b \<le> rate2025 a) (branches flag data2024 data2025) \<and>
   filter (\<lambda>r. rate2025 r = q) (branches flag data2024 data2025) =
     filter (\<lambda>r. rate2025 r = q)
       (map (branch_stats flag data2024 data2025) (branch_names data2024 data2025)) \<and>
   truthy (JStr s) = (s \<noteq> [])"
proof -
  let ?stats = "branch_stats flag data2024 data2025"
  let ?names = "branch_names data2024 data2025"
  let ?rows = "branches flag data2024 data2025"
  have m: "mset ?rows = mset (map ?stats ?names)"
    by (simp add: branches_def mset_sort_by)
  then have "mset (map name ?rows) = mset (map name (map ?stats ?names))"
    by (metis mset_map)
  then have names: "mset (map name ?rows) = mset ?names"
    by (simp add: map_name_branch_stats)
  then have "set (map name ?rows) = set ?names" by (rule mset_eq_setD)
  then have a: "set (map name ?rows) =
      {b. truthy b \<and> b \<in> (\<lambda>d. field d (ascii ''branch'')) ` (set data2024 \<union> set data2025)}"
    by (simp only: set_branch_names)
  have b: "distinct (map name ?rows)"
    using names distinct_new_Set [of "filter truthy (map (\<lambda>d. field d (ascii ''branch'')) (data2024 @ data2025))"]
    by (metis branch_names_def mset_eq_imp_distinct_iff)
  have c: "r = ?stats (name r) \<and>
      total2024 r = length (filter (\<lambda>d. field d (ascii ''branch'') = name r) data2024) \<and>
      total2025 r = length (filter (\<lambda>d. field d (ascii ''branch'') = name r) data2025) \<and>
      ((\<forall>d\<in>set data2024. field d (ascii ''branch'') \<noteq> name r) \<longrightarrow>
         total2024 r = 0 \<and> rate2024 r = 0) \<and>
      ((\<forall>d\<in>set data2025. field d (ascii ''branch'') \<noteq> name r) \<longrightarrow>
         total2025 r = 0 \<and> rate2025 r = 0)" if r: "r \<in> set ?rows" for r
  proof -
    from r m have "r \<in> set (map ?stats ?names)" by (metis mset_eq_setD)
    then obtain br where br: "br \<in> set ?names" and rb: "r = ?stats br" by auto
    have nm: "name r = br" by (simp add: rb name_branch_stats)
    from br have t: "truthy br" by (simp add: set_branch_names)
    have ib: "in_branch br = (\<lambda>d. field d (ascii ''branch'') = br)"
      by (rule ext) (simp add: in_branch_def truthy_strict_eq [OF t])
    have t24: "total2024 r = length (filter (\<lambda>d. field d (ascii ''branch'') = br) data2024)"
      and t25: "total2025 r = length (filter (\<lambda>d. field d (ascii ''branch'') = br) data2025)"
      by (simp_all add: rb branch_stats_def Let_def ib)
    have r24: "total2024 r = 0 \<Longrightarrow> rate2024 r = 0" and r25: "total2025 r = 0 \<Longrightarrow> rate2025 r = 0"
      by (simp_all add: rb branch_stats_def Let_def rate_zero)
    have z24: "(\<forall>d\<in>set data2024. field d (ascii ''branch'') \<noteq> br) \<longrightarrow> total2024 r = 0"
      and z25: "(\<forall>d\<in>set data2025. field d (ascii ''branch'') \<noteq> br) \<longrightarrow> total2025 r = 0"
      by (simp_all add: t24 t25 filter_empty_conv)
    have c24: "(\<forall>d\<in>set data2024. field d (ascii ''branch'') \<noteq> br) \<longrightarrow>
        total2024 r = 0 \<and> rate2024 r = 0"
      using z24 r24 by blast
    have c25: "(\<forall>d\<in>set data2025. field d (ascii ''branch'') \<noteq> br) \<longrightarrow>
        total2025 r = 0 \<and> rate2025 r = 0"
      using z25 r25 by blast
    show ?thesis
      unfolding nm by (intro conjI rb t24 t25 c24 c25)
  qed
  have d: "sorted_wrt (\<lambda>a b. rate2025 b \<le> rate2025 a) ?rows"
    unfolding branches_def by (rule descending_sort_by)
  have e: "filter (\<lambda>r. rate2025 r = q) ?rows = filter (\<lambda>r. rate2025 r = q) (map ?stats ?names)"
    unfolding branches_def by (rule ties_sort_by)
  have f: "truthy (JStr s) = (s \<noteq> [])" by (simp add: truthy_def)
  from a b c d e f show ?thesis by blast
qed


theorem branch_breakdown_witness:
  "branches (ascii ''drink'')
     [[(ascii ''branch'', JStr (ascii ''A'')), (ascii ''drink'', JBool True)]]
     [[(ascii ''branch'', JStr (ascii ''A'')), (ascii ''drink'', JBool False)],
      [(ascii ''branch'', JStr (ascii ''B'')), (ascii ''drink'', JBool True)]] =
     [\<lparr>name = JStr (ascii ''B''), rate2024 = 0, rate2025 = 100, flagged2024 = 0,
        flagged2025 = 1, total2024 = 0, total2025 = 1\<rparr>,
      \<lparr>name = JStr (ascii ''A''), rate2024 = 100, rate2025 = 0, flagged2024 = 1,
        flagged2025 = 0, total2024 = 1, total2025 = 1\<rparr>] \<and>
   field [(ascii ''branch'', JStr (ascii ''A'')), (ascii ''drink'', JBool True)] (ascii ''branch'')
     \<noteq> JStr (ascii ''B'') \<and>
   total2024 (hd (branches (ascii ''drink'')
     [[(ascii ''branch'', JStr (ascii ''A'')), (ascii ''drink'', JBool True)]]
     [[(ascii ''branch'', JStr (ascii ''A'')), (ascii ''drink'', JBool False)],
      [(ascii ''branch'', JStr (ascii ''B'')), (ascii ''drink'', JBool True)]])) = 0 \<and>
   rate2024 (hd (branches (ascii ''drink'')
     [[(ascii ''branch'', JStr (ascii ''A'')), (ascii ''drink'', JBool True)]]
     [[(ascii ''branch'', JStr (ascii ''A'')), (ascii ''drink'', JBool False)],
      [(ascii ''branch'', JStr (ascii ''B'')), (ascii ''drink'', JBool True)]])) = 0"
proof -
  let ?d24 = "[[(ascii ''branch'', JStr (ascii ''A'')), (ascii ''drink'', JBool True)]]"
  let ?d25 = "[[(ascii ''branch'', JStr (ascii ''A'')), (ascii ''drink'', JBool False)],
      [(ascii ''branch'', JStr (ascii ''B'')), (ascii ''drink'', JBool True)]]"
  let ?rowB = "\<lparr>name = JStr (ascii ''B''), rate2024 = 0, rate2025 = 100, flagged2024 = 0,
        flagged2025 = 1, total2024 = 0, total2025 = 1\<rparr>"
  let ?rowA = "\<lparr>name = JStr (ascii ''A''), rate2024 = 100, rate2025 = 0, flagged2024 = 1,
        flagged2025 = 0, total2024 = 1, total2025 = 1\<rparr>"
  have ev: "branches (ascii ''drink'') ?d24 ?d25 = [?rowB, ?rowA]"
    by (simp add: branches_def branch_names_def new_Set_def Set_add_def branch_stats_def
        in_branch_def strict_eq_def field_def truthy_def rate_all rate_zero rate_none sort_by_def
        ascii_def Let_def)
  have absent: "\<forall>d\<in>set ?d24. field d (ascii ''branch'') \<noteq> name ?rowB"
    by (simp add: field_def ascii_def)
  have mem: "?rowB \<in> set (branches (ascii ''drink'') ?d24 ?d25)"
    by (simp add: ev)
  from branch_breakdown [of "ascii ''drink''" ?d24 ?d25] mem absent
  have "total2024 ?rowB = 0 \<and> rate2024 ?rowB = 0" by blast
  with ev absent show ?thesis by simp
qed

section \<open>Fetching all rows\<close>

lemma PAGE_SIZE_pos: "0 < PAGE_SIZE"
  by (simp add: PAGE_SIZE_def)

lemma fetchAll_loop_error:
  "error (page_query sb t k) = Some e \<Longrightarrow> fetchAll_loop sb t results k = Some (Inl e)"
  by (subst fetchAll_loop.simps) (simp add: page_query_def Let_def)

lemma fetchAll_loop_last:
  "last_page (page_query sb t k) \<Longrightarrow>
   fetchAll_loop sb t results k = Some (Inr (results @ or_empty (data (page_query sb t k))))"
  by (subst fetchAll_loop.simps)
    (auto simp: page_query_def last_page_def or_empty_def Let_def split: option.splits)

lemma fetchAll_loop_full:
  "full_page (page_query sb t k) \<Longrightarrow>
   fetchAll_loop sb t results k =
     fetchAll_loop sb t (results @ or_empty (data (page_query sb t k))) (k + 1)"
  using PAGE_SIZE_pos
  by (subst fetchAll_loop.simps)
    (auto simp: page_query_def full_page_def or_empty_def Let_def split: option.splits)

lemma fetchAll_loop_pages:
  "\<forall>j<n. full_page (page_query sb t (k + j)) \<Longrightarrow>
   fetchAll_loop sb t results k =
     fetchAll_loop sb t
       (results @ concat (map (\<lambda>j. or_empty (data (page_query sb t j))) [k..<k + n])) (k + n)"
proof (induction n arbitrary: k results)
  case 0
  show ?case by simp
next
  case (Suc n)
  have first: "full_page (page_query sb t k)" using Suc.prems by force
  have rest: "\<forall>j<n. full_page (page_query sb t (Suc k + j))" using Suc.prems by force
  have "fetchAll_loop sb t results k =
      fetchAll_loop sb t (results @ or_empty (data (page_query sb t k))) (Suc k)"
    using fetchAll_loop_full [OF first] by simp
  also have "\<dots> = fetchAll_loop sb t
      ((results @ or_empty (data (page_query sb t k))) @
        concat (map (\<lambda>j. or_empty (data (page_query sb t j))) [Suc k..<Suc k + n])) (Suc k + n)"
    by (rule Suc.IH [OF rest])
  finally have "fetchAll_loop sb t results k = fetchAll_loop sb t
      (results @ concat (map (\<lambda>j. or_empty (data (page_query sb t j))) (k # [Suc k..<Suc k + n])))
      (Suc k + n)"
    by simp
  moreover have "[k..<k + Suc n] = k # [Suc k..<Suc k + n]"
    by (subst upt_rec) simp
  ultimately show ?case by (simp del: upt_Suc)
qed

lemma fetchAll_pages_then_error:
  "\<forall>j<n. full_page (page_query sb t j) \<Longrightarrow> error (page_query sb t n) = Some e \<Longrightarrow>
   fetchAll sb t = Some (Inl e)"
  using fetchAll_loop_pages [of n sb t 0 "[]"] fetchAll_loop_error [of sb t n e]
  by (simp add: fetchAll_def)

lemma fetchAll_pages_then_last:
  "\<forall>j<n. full_page (page_query sb t j) \<Longrightarrow> last_page (page_query sb t n) \<Longrightarrow>
   fetchAll sb t =
     Some (Inr (concat (map (\<lambda>j. or_empty (data (page_query sb t j))) [0..<Suc n])))"
  using fetchAll_loop_pages [of n sb t 0 "[]"] fetchAll_loop_last [of sb t n]
  by (simp add: fetchAll_def)

lemma table_page:
  "db t = Some rows \<Longrightarrow>
   page_query (table_store db missing) t k =
     \<lparr> data = Some (take PAGE_SIZE (drop (k * PAGE_SIZE) rows)), error = None \<rparr>"
  using PAGE_SIZE_pos by (simp add: page_query_def table_store_def)

lemma fetchAll_loop_table:
  "db t = Some rows \<Longrightarrow>
   fetchAll_loop (table_store db missing) t (take (k * PAGE_SIZE) rows) k = Some (Inr rows)"
proof (induction "length rows - k * PAGE_SIZE" arbitrary: k rule: less_induct)
  case less
  let ?sb = "table_store db missing"
  let ?d = "take PAGE_SIZE (drop (k * PAGE_SIZE) rows)"
  have pg: "page_query ?sb t k = \<lparr> data = Some ?d, error = None \<rparr>"
    using less.prems by (rule table_page)
  have "take (k * PAGE_SIZE) rows @ ?d = take (k * PAGE_SIZE + PAGE_SIZE) rows"
    by (simp only: take_add)
  moreover have "k * PAGE_SIZE + PAGE_SIZE = Suc k * PAGE_SIZE" by simp
  ultimately have join: "take (k * PAGE_SIZE) rows @ ?d = take (Suc k * PAGE_SIZE) rows"
    by (simp only:)
  show ?case
  proof (cases "length ?d < PAGE_SIZE")
    case True
    then have "length rows - k * PAGE_SIZE < PAGE_SIZE" by simp
    then have "length rows < Suc k * PAGE_SIZE" by simp
    then have "take (Suc k * PAGE_SIZE) rows = rows" by simp
    moreover have "last_page (page_query ?sb t k)"
      using True by (simp add: pg last_page_def or_empty_def)
    ultimately show ?thesis
      using fetchAll_loop_last [of ?sb t k "take (k * PAGE_SIZE) rows"] join
      by (simp add: pg or_empty_def)
  next
    case False
    then have "PAGE_SIZE \<le> length rows - k * PAGE_SIZE" by simp
    then have long: "Suc k * PAGE_SIZE \<le> length rows"
      using PAGE_SIZE_pos by simp
    have "full_page (page_query ?sb t k)"
      using False by (simp add: pg full_page_def or_empty_def)
    then have "fetchAll_loop ?sb t (take (k * PAGE_SIZE) rows) k =
        fetchAll_loop ?sb t (take (Suc k * PAGE_SIZE) rows) (Suc k)"
      using fetchAll_loop_full [of ?sb t k "take (k * PAGE_SIZE) rows"] join
      by (simp add: pg or_empty_def)
    moreover have "length rows - Suc k * PAGE_SIZE < length rows - k * PAGE_SIZE"
      using long PAGE_SIZE_pos by simp
    then have "fetchAll_loop ?sb t (take (Suc k * PAGE_SIZE) rows) (Suc k) = Some (Inr rows)"
      using less.prems by (rule less.hyps)
    ultimately show ?thesis by simp
  qed
qed

lemma fetchAll_table:
  "fetchAll (table_store db missing) t =
     (case db t of None \<Rightarrow> Some (Inl missing) | Some rows \<Rightarrow> Some (Inr rows))"
proof (cases "db t")
  case None
  then have "error (page_query (table_store db missing) t 0) = Some missing"
    by (simp add: page_query_def table_store_def)
  then show ?thesis
    using None by (simp add: fetchAll_def fetchAll_loop_error)
next
  case (Some rows)
  then show ?thesis
    using fetchAll_loop_table [of db t rows missing 0] by (simp add: fetchAll_def)
qed

lemma fetchData_table:
  "db (ascii ''health_2024'') = Some rows2024 \<Longrightarrow> db (ascii ''health_2025'') = Some rows2025 \<Longrightarrow>
   fetchData True (table_store db missing) =
     Inr (map normalizeItem (take 5000 rows2024), map normalizeItem (take 5000 rows2025))"
  by (simp add: fetchData_def table_store_def normalizeData_def or_empty_def)


text \<open>
  Claim C3, amended. \<open>fetchAll\<close> asks for pages of 1000 rows until a page is shorter
  than that: after any number of full pages, a last page makes it return the rows of
  all pages in order, and an error on a page makes the whole call fail with that error,
  nothing of the earlier pages returned. Against a store that answers each range with the
  rows it holds, it returns the complete table, whatever its size, and fails for a table
  the store does not have. The pages of the dashboard do not call \<open>fetchAll\<close>: their
  \<open>fetchData\<close> sends one query per year with \<open>limit(5000)\<close>, and loads the first 5000 rows
  of each table at most.
\<close>

theorem fetchAll_complete_loader_capped:
  "((\<forall>j<n. full_page (page_query sb t j)) \<and> last_page (page_query sb t n) \<longrightarrow>
      fetchAll sb t =
        Some (Inr (concat (map (\<lambda>j. or_empty (data (page_query sb t j))) [0..<Suc n])))) \<and>
   ((\<forall>j<n. full_page (page_query sb t j)) \<and> error (page_query sb t n) = Some e \<longrightarrow>
      fetchAll sb t = Some (Inl e)) \<and>
   fetchAll (table_store db missing) t =
     (case db t of None \<Rightarrow> Some (Inl missing) | Some rows \<Rightarrow> Some (Inr rows)) \<and>
   (db (ascii ''health_2024'') = Some rows2024 \<and> db (ascii ''health_2025'') = Some rows2025 \<longrightarrow>
      fetchData True (table_store db missing) =
        Inr (map normalizeItem (take 5000 rows2024), map normalizeItem (take 5000 rows2025)))"
  using fetchAll_pages_then_last [of n sb t] fetchAll_pages_then_error [of n sb t e]
    fetchAll_table [of db missing t] fetchData_table [of db rows2024 rows2025 missing]
  by blast

theorem fetchAll_complete_loader_capped_witness:
  "full_page (page_query (table_store (\<lambda>t. Some (replicate 2500 [])) ()) (ascii ''health_2024'') 0) \<and>
   full_page (page_query (table_store (\<lambda>t. Some (replicate 2500 [])) ()) (ascii ''health_2024'') 1) \<and>
   last_page (page_query (table_store (\<lambda>t. Some (replicate 2500 [])) ()) (ascii ''health_2024'') 2) \<and>
   fetchAll (table_store (\<lambda>t. Some (replicate 2500 [])) ()) (ascii ''health_2024'') =
     Some (Inr (replicate 1000 [] @ replicate 1000 [] @ replicate 500 [])) \<and>
   error (page_query (table_store (\<lambda>t. None) ()) (ascii ''health_2024'') 0) = Some () \<and>
   fetchAll (table_store (\<lambda>t. None) ()) (ascii ''health_2024'') = Some (Inl ()) \<and>
   fetchData True (table_store (\<lambda>t. Some (replicate 2500 [])) ()) =
     Inr (replicate 2500 [], replicate 2500 [])"
proof -
  let ?sb = "table_store (\<lambda>t. Some (replicate 2500 ([] :: jsobj))) ()"
  let ?t = "ascii ''health_2024''"
  have p0: "page_query ?sb ?t 0 = \<lparr> data = Some (replicate 1000 []), error = None \<rparr>"
    using table_page [of "\<lambda>t. Some (replicate 2500 [])" ?t "replicate 2500 []" "()" 0]
    by (simp add: PAGE_SIZE_def)
  have p1: "page_query ?sb ?t 1 = \<lparr> data = Some (replicate 1000 []), error = None \<rparr>"
    using table_page [of "\<lambda>t. Some (replicate 2500 [])" ?t "replicate 2500 []" "()" 1]
    by (simp add: PAGE_SIZE_def)
  have p2: "page_query ?sb ?t 2 = \<lparr> data = Some (replicate 500 []), error = None \<rparr>"
    using table_page [of "\<lambda>t. Some (replicate 2500 [])" ?t "replicate 2500 []" "()" 2]
    by (simp add: PAGE_SIZE_def)
  have f0: "full_page (page_query ?sb ?t 0)"
    unfolding full_page_def p0 by (simp add: or_empty_def PAGE_SIZE_def)
  have f1: "full_page (page_query ?sb ?t 1)"
    unfolding full_page_def p1 by (simp add: or_empty_def PAGE_SIZE_def)
  have l2: "last_page (page_query ?sb ?t 2)"
    unfolding last_page_def p2 by (simp add: or_empty_def PAGE_SIZE_def)
  have full: "\<forall>j<2. full_page (page_query ?sb ?t j)"
    using f0 f1 by (simp add: less_2_cases_iff)
  have u: "[0..<Suc 2] = [0, 1, 2]"
    by (simp add: upt_rec numeral_2_eq_2)
  have pages: "concat (map (\<lambda>j. or_empty (data (page_query ?sb ?t j))) [0..<Suc 2]) =
      replicate 1000 [] @ replicate 1000 [] @ replicate 500 []"
    unfolding u list.map concat.simps p0 p1 p2 by (simp add: or_empty_def)
  have "fetchAll ?sb ?t =
      Some (Inr (concat (map (\<lambda>j. or_empty (data (page_query ?sb ?t j))) [0..<Suc 2])))"
    by (rule fetchAll_complete_loader_capped [of 2 ?sb ?t, THEN conjunct1, THEN mp])
      (intro conjI full l2)
  then have r1: "fetchAll ?sb ?t =
      Some (Inr (replicate 1000 [] @ replicate 1000 [] @ replicate 500 []))"
    unfolding pages .
  let ?none = "table_store (\<lambda>t. None :: jsobj list option) ()"
  have e0: "error (page_query ?none ?t 0) = Some ()"
    by (simp add: page_query_def table_store_def)
  have none_before: "\<forall>j<0. full_page (page_query ?none ?t j)" by simp
  have r2: "fetchAll ?none ?t = Some (Inl ())"
    by (rule fetchAll_complete_loader_capped [of 0 ?none ?t "()", THEN conjunct2, THEN conjunct1, THEN mp])
      (intro conjI none_before e0)
  have n: "map normalizeItem (take 5000 (replicate 2500 [])) = replicate 2500 []"
    by (simp add: normalizeItem_def)
  have "fetchData True ?sb = Inr (map normalizeItem (take 5000 (replicate 2500 [])),
      map normalizeItem (take 5000 (replicate 2500 [])))"
    by (rule fetchAll_complete_loader_capped [where db = "\<lambda>t. Some (replicate 2500 [])"
        and missing = "()" and ?rows2024.0 = "replicate 2500 []" and ?rows2025.0 = "replicate 2500 []", THEN conjunct2, THEN conjunct2, THEN conjunct2, THEN mp])
      (intro conjI refl)
  then have r3: "fetchData True ?sb = Inr (replicate 2500 [], replicate 2500 [])"
    unfolding n .
  from f0 f1 l2 r1 e0 r2 r3 show ?thesis by (simp)
qed

text \<open>
  The claim as it was worded has a year loaded completely whatever its size. Of a table
  of 5001 rows \<open>fetchData\<close> loads 5000.
\<close>

theorem page_loader_truncates:
  "fetchData True (table_store (\<lambda>t. Some (replicate 5001 [])) ()) =
     Inr (replicate 5000 [], replicate 5000 []) \<and>
   replicate 5000 [] \<noteq> replicate 5001 ([] :: jsobj)"
  by (simp add: fetchData_def table_store_def normalizeData_def or_empty_def normalizeItem_def)


end
